theory Spec2Isabelle
  imports Main
begin

section \<open>Text\<close>

text \<open>
  A Python \<open>str\<close> is a sequence of Unicode code points; a code point is a natural
  number, so that \<open>len\<close>, \<open>strip\<close>, the regular expressions and the JSON escapes
  count what Python counts. \<open>str\<close> turns an ASCII literal into such a sequence.
\<close>

type_synonym pystr = "nat list"

definition str :: "string \<Rightarrow> pystr" where
  "str s = map of_char s"

text \<open>
  \<open>str.isspace\<close> for one code point, which is also what \<open>\s\<close> matches in a
  \<open>str\<close> pattern of the \<open>re\<close> module.
\<close>

definition isspace :: "nat \<Rightarrow> bool" where
  "isspace c \<longleftrightarrow>
     (9 \<le> c \<and> c \<le> 13) \<or> (28 \<le> c \<and> c \<le> 32) \<or> c = 133 \<or> c = 160 \<or> c = 5760 \<or>
     (8192 \<le> c \<and> c \<le> 8202) \<or> c = 8232 \<or> c = 8233 \<or> c = 8239 \<or> c = 8287 \<or> c = 12288"

definition strip :: "pystr \<Rightarrow> pystr" where
  "strip s = dropWhile isspace (rev (dropWhile isspace (rev s)))"

text \<open>
  \<open>str.upper\<close> maps every character by itself. \<open>upper_char\<close> is what it does to an
  ASCII character, and \<open>upper\<close> is \<open>str.upper\<close> on a text of ASCII characters: the
  reply parser applies it to the letter captured by \<open>[a-cA-C]\<close>. The answer label of
  \<open>compute_hash\<close> may hold any character: \<open>str_upper\<close>, below, is \<open>str.upper\<close> there.
\<close>

definition upper_char :: "nat \<Rightarrow> nat" where
  "upper_char c = (if 97 \<le> c \<and> c \<le> 122 then c - 32 else c)"

definition upper :: "pystr \<Rightarrow> pystr" where
  "upper s = map upper_char s"

text \<open>
  Matching a literal piece of a pattern at the head of a text: \<open>after_prefix p s\<close> is
  what follows \<open>p\<close> in \<open>s\<close>, when \<open>s\<close> starts with \<open>p\<close>.
\<close>

fun after_prefix :: "pystr \<Rightarrow> pystr \<Rightarrow> pystr option" where
  "after_prefix [] s = Some s"
| "after_prefix (p # ps) [] = None"
| "after_prefix (p # ps) (c # cs) = (if p = c then after_prefix ps cs else None)"

section \<open>Reading the reply (run_verify_mode, step 1)\<close>

text \<open>
  \<open>re.match(r'/answer\s+([a-cA-C])', comment_body)\<close>: the match is anchored at the
  start of the text only. \<open>\s+\<close> is greedy, and a letter is no white space, so the
  match exists exactly when the letter follows the whole run of white space.
  The result is \<open>match.group(1)\<close>.
\<close>

definition answer_letter :: "nat \<Rightarrow> bool" where
  "answer_letter c \<longleftrightarrow> (97 \<le> c \<and> c \<le> 99) \<or> (65 \<le> c \<and> c \<le> 67)"

definition match_answer :: "pystr \<Rightarrow> nat option" where
  "match_answer s =
     (case after_prefix (str ''/answer'') s of
        None \<Rightarrow> None
      | Some r \<Rightarrow>
          (let r' = dropWhile isspace r in
           if length r' = length r then None
           else (case r' of [] \<Rightarrow> None
                 | c # _ \<Rightarrow> if answer_letter c then Some c else None)))"

text \<open>
  \<open>comment_body = event['comment']['body'].strip()\<close>, the match, and
  \<open>user_answer = match.group(1).upper()\<close>; \<open>None\<close> is the branch that logs
  "Ignoring" and exits with status 0.
\<close>

definition user_answer :: "pystr \<Rightarrow> pystr option" where
  "user_answer body = map_option (\<lambda>c. upper [c]) (match_answer (strip body))"

section \<open>JSON values and \<open>json.loads\<close>\<close>

text \<open>
  The decoder of the standard library, as CPython runs it: \<open>json/decoder.py\<close> and
  \<open>json/scanner.py\<close> with the scanner of the \<open>_json\<close> module (ASCII digits, four
  hexadecimal digits after \<open>\u\<close>, a recursion check at every array and object).

  What \<open>json.loads\<close> returns: a \<open>float\<close> is kept as the decimal it was read from
  (sign, digits, power of ten), or \<open>NaN\<close> or an infinity: the program never computes
  with one, it only tests it for truth. A \<open>dict\<close> is the list of its items in insertion
  order, with keys that differ.
\<close>

datatype pyfloat = NaN | Infinity bool | Decimal bool nat int

datatype json =
    JNull
  | JBool bool
  | JInt int
  | JFloat pyfloat
  | JStr pystr
  | JArr "json list"
  | JObj "(pystr \<times> json) list"

datatype py_error =
    JSONDecodeError
  | RecursionError
  | ValueError
  | AttributeError
  | KeyError
  | TypeError
  | UnicodeEncodeError

text \<open>
  What the interpreter and its library provide and this development leaves open.
  Two limits decide what \<open>json.loads\<close> raises: how many nested arrays and objects
  the decoder may enter before \<open>RecursionError\<close> (it enters each through
  \<open>Py_EnterRecursiveCall\<close>), and \<open>sys.get_int_max_str_digits()\<close>, beyond which \<open>int\<close>
  raises \<open>ValueError\<close> (0 switches that limit off). \<open>sha256_hexdigest\<close> is
  \<open>hashlib.sha256(b).hexdigest()\<close> for a byte string \<open>b\<close>, and \<open>format_value\<close> is
  \<open>str(v)\<close> for a value that is not a \<open>str\<close>: the text an f-string puts in its
  place, and \<open>float.__repr__\<close>. \<open>upper_nonascii\<close> is \<open>c.upper()\<close> for one character
  \<open>c\<close> outside ASCII, the full upper-case mapping of the Unicode database: one
  character or several (\<open>SS\<close> for the sharp s).
\<close>

record python =
  max_nesting :: nat
  int_max_str_digits :: nat
  sha256_hexdigest :: "nat list \<Rightarrow> pystr"
  format_value :: "json \<Rightarrow> pystr"
  upper_nonascii :: "nat \<Rightarrow> pystr"

text \<open>
  \<open>str.upper\<close> on any text: character by character, with no context (\<open>do_upper\<close> of
  \<open>unicodeobject.c\<close> calls \<open>_PyUnicode_ToUpperFull\<close> on each).
\<close>

definition str_upper :: "python \<Rightarrow> pystr \<Rightarrow> pystr" where
  "str_upper py s = concat (map (\<lambda>c. if c < 128 then [upper_char c] else upper_nonascii py c) s)"

definition json_ws :: "nat \<Rightarrow> bool" where
  "json_ws c \<longleftrightarrow> c = 32 \<or> c = 9 \<or> c = 10 \<or> c = 13"

definition skip_ws :: "pystr \<Rightarrow> pystr" where
  "skip_ws s = dropWhile json_ws s"

definition isdigit :: "nat \<Rightarrow> bool" where
  "isdigit c \<longleftrightarrow> 48 \<le> c \<and> c \<le> 57"

definition hex_value :: "nat \<Rightarrow> nat option" where
  "hex_value c =
     (if 48 \<le> c \<and> c \<le> 57 then Some (c - 48)
      else if 97 \<le> c \<and> c \<le> 102 then Some (c - 87)
      else if 65 \<le> c \<and> c \<le> 70 then Some (c - 55)
      else None)"

text \<open>\<open>_decode_uXXXX\<close>: the four hexadecimal digits after \<open>\u\<close>.\<close>

fun decode_uXXXX :: "pystr \<Rightarrow> nat option" where
  "decode_uXXXX (a # b # c # d # _) =
     (case (hex_value a, hex_value b, hex_value c, hex_value d) of
        (Some x, Some y, Some z, Some w) \<Rightarrow> Some (((x * 16 + y) * 16 + z) * 16 + w)
      | _ \<Rightarrow> None)"
| "decode_uXXXX _ = None"

text \<open>The table \<open>BACKSLASH\<close>.\<close>

definition backslash :: "nat \<Rightarrow> nat option" where
  "backslash e =
     (if e = 34 then Some 34 else if e = 92 then Some 92 else if e = 47 then Some 47
      else if e = 98 then Some 8 else if e = 102 then Some 12 else if e = 110 then Some 10
      else if e = 114 then Some 13 else if e = 116 then Some 9 else None)"

definition prepend :: "nat \<Rightarrow> (pystr \<times> pystr) option \<Rightarrow> (pystr \<times> pystr) option" where
  "prepend c r = map_option (\<lambda>(v, rest). (c # v, rest)) r"

text \<open>
  \<open>scanstring\<close> (strict), from the character after the opening quote: the decoded
  string and the text after the closing quote; \<open>None\<close> is \<open>JSONDecodeError\<close>.
\<close>

function scanstring :: "pystr \<Rightarrow> (pystr \<times> pystr) option" where
  "scanstring [] = None"
| "scanstring (c # cs) =
     (if c = 34 then Some ([], cs)
      else if c = 92 then
        (case cs of
           [] \<Rightarrow> None
         | e # es \<Rightarrow>
             if e = 117 then
               (case decode_uXXXX es of
                  None \<Rightarrow> None
                | Some uni \<Rightarrow>
                    if 55296 \<le> uni \<and> uni \<le> 56319 \<and> after_prefix [92, 117] (drop 4 es) \<noteq> None then
                      (case decode_uXXXX (drop 6 es) of
                         None \<Rightarrow> None
                       | Some uni2 \<Rightarrow>
                           if 56320 \<le> uni2 \<and> uni2 \<le> 57343
                           then prepend (65536 + ((uni - 55296) * 1024 + (uni2 - 56320)))
                                  (scanstring (drop 10 es))
                           else prepend uni (scanstring (drop 4 es)))
                    else prepend uni (scanstring (drop 4 es)))
             else
               (case backslash e of
                  None \<Rightarrow> None
                | Some ch \<Rightarrow> prepend ch (scanstring es)))
      else if c < 32 then None
      else prepend c (scanstring cs))"
  by pat_completeness auto
termination
  by (relation "measure length") auto

text \<open>
  The number at the head of a text, as \<open>NUMBER_RE\<close> reads it:
  \<open>(-?(?:0|[1-9]\d*))(\.\d+)?([eE][-+]?\d+)?\<close> with ASCII digits.
\<close>

definition digits_value :: "pystr \<Rightarrow> nat" where
  "digits_value ds = foldl (\<lambda>a d. 10 * a + (d - 48)) 0 ds"

definition match_sign :: "pystr \<Rightarrow> bool \<times> pystr" where
  "match_sign s = (case s of [] \<Rightarrow> (False, s) | c # t \<Rightarrow> if c = 45 then (True, t) else (False, s))"

definition match_integer :: "pystr \<Rightarrow> (pystr \<times> pystr) option" where
  "match_integer s =
     (case s of
        [] \<Rightarrow> None
      | c # t \<Rightarrow>
          if c = 48 then Some ([c], t)
          else if 49 \<le> c \<and> c \<le> 57 then Some (c # takeWhile isdigit t, dropWhile isdigit t)
          else None)"

definition match_frac :: "pystr \<Rightarrow> pystr \<times> pystr" where
  "match_frac s =
     (case s of
        c # d # t \<Rightarrow>
          if c = 46 \<and> isdigit d then (d # takeWhile isdigit t, dropWhile isdigit t) else ([], s)
      | _ \<Rightarrow> ([], s))"

definition match_exp :: "pystr \<Rightarrow> (bool \<times> pystr) option \<times> pystr" where
  "match_exp s =
     (case s of
        [] \<Rightarrow> (None, s)
      | c # t \<Rightarrow>
          if c = 101 \<or> c = 69 then
            (let (neg, u) = (case t of [] \<Rightarrow> (False, t)
                             | g # v \<Rightarrow> if g = 45 then (True, v) else if g = 43 then (False, v)
                                        else (False, t))
             in if takeWhile isdigit u = [] then (None, s)
                else (Some (neg, takeWhile isdigit u), dropWhile isdigit u))
          else (None, s))"

text \<open>
  The value of the number: \<open>int(integer)\<close> when there is neither fraction nor
  exponent, a \<open>float\<close> otherwise.
\<close>

definition match_number :: "python \<Rightarrow> pystr \<Rightarrow> (py_error + json \<times> pystr) option" where
  "match_number rt s =
     (let (neg, s1) = match_sign s in
      case match_integer s1 of
        None \<Rightarrow> None
      | Some (ip, s2) \<Rightarrow>
          (let (fp, s3) = match_frac s2; (ex, s4) = match_exp s3 in
           if fp = [] \<and> ex = None then
             (if 0 < int_max_str_digits rt \<and> int_max_str_digits rt < length ip
              then Some (Inl ValueError)
              else Some (Inr (JInt (if neg then - int (digits_value ip) else int (digits_value ip)), s4)))
           else
             (let e = (case ex of None \<Rightarrow> 0
                       | Some (eneg, ds) \<Rightarrow> if eneg then - int (digits_value ds)
                                            else int (digits_value ds))
              in Some (Inr (JFloat (Decimal neg (digits_value (ip @ fp)) (e - int (length fp))), s4)))))"

text \<open>\<open>dict(pairs)\<close>: a later item with the same key replaces the value in place.\<close>

fun dict_set :: "pystr \<Rightarrow> json \<Rightarrow> (pystr \<times> json) list \<Rightarrow> (pystr \<times> json) list" where
  "dict_set k v [] = [(k, v)]"
| "dict_set k v ((k', v') # m) = (if k = k' then (k, v) # m else (k', v') # dict_set k v m)"

definition dict_of_pairs :: "(pystr \<times> json) list \<Rightarrow> (pystr \<times> json) list" where
  "dict_of_pairs ps = foldl (\<lambda>m (k, v). dict_set k v m) [] ps"

lemma scanstring_shorter: "scanstring s = Some (v, r) \<Longrightarrow> length r < length s"
proof (induction s arbitrary: v r rule: scanstring.induct)
  case 1
  then show ?case by simp
next
  case (2 c cs)
  show ?case
  proof (cases "c = 34")
    case True
    with "2.prems" show ?thesis by simp
  next
    case False
    note nq = this
    show ?thesis
    proof (cases "c = 92")
      case False
      with nq "2.prems" obtain v' where "scanstring cs = Some (v', r)"
        by (auto simp: prepend_def split: if_splits)
      with "2.IH"(5) [OF nq False] "2.prems" nq False show ?thesis
        by (fastforce simp: prepend_def split: if_splits)
    next
      case True
      with nq "2.prems" obtain e es where cs: "cs = e # es"
        by (auto split: list.splits)
      show ?thesis
      proof (cases "e = 117")
        case False
        with nq True cs "2.prems" obtain ch v' where
          "backslash e = Some ch" "scanstring es = Some (v', r)"
          by (auto simp: prepend_def split: option.splits)
        with "2.IH"(4) [OF nq True cs False] cs show ?thesis
          by fastforce
      next
        case u: True
        with nq True cs "2.prems" obtain uni where uni: "decode_uXXXX es = Some uni"
          by (auto split: option.splits)
        show ?thesis
        proof (cases "55296 \<le> uni \<and> uni \<le> 56319 \<and> after_prefix [92, 117] (drop 4 es) \<noteq> None")
          case False
          with nq True cs u uni "2.prems" obtain v' where
            "scanstring (drop 4 es) = Some (v', r)"
            by (auto simp: prepend_def split: if_splits)
          with "2.IH"(3) [OF nq True cs u uni False] cs show ?thesis
            by fastforce
        next
          case sur: True
          with nq True cs u uni "2.prems" obtain uni2 where uni2: "decode_uXXXX (drop 6 es) = Some uni2"
            by (auto split: option.splits)
          show ?thesis
          proof (cases "56320 \<le> uni2 \<and> uni2 \<le> 57343")
            case True
            with nq \<open>c = 92\<close> cs u uni sur uni2 "2.prems" obtain v' where
              "scanstring (drop 10 es) = Some (v', r)"
              by (auto simp: prepend_def split: if_splits)
            with "2.IH"(1) [OF nq \<open>c = 92\<close> cs u uni sur uni2 True] cs show ?thesis
              by fastforce
          next
            case False
            with nq \<open>c = 92\<close> cs u uni sur uni2 "2.prems" obtain v' where
              "scanstring (drop 4 es) = Some (v', r)"
              by (auto simp: prepend_def split: if_splits)
            with "2.IH"(2) [OF nq \<open>c = 92\<close> cs u uni sur uni2 False] cs show ?thesis
              by fastforce
          qed
        qed
      qed
    qed
  qed
qed

lemma skip_ws_length: "length (skip_ws s) \<le> length s"
  by (simp add: skip_ws_def length_dropWhile_le)

lemma skip_ws_Cons: "skip_ws s = c # r \<Longrightarrow> length r < length s"
  using skip_ws_length [of s] by simp

text \<open>
  \<open>scan_once\<close> with \<open>JSONObject\<close> and \<open>JSONArray\<close>: the value at the head of a text,
  and the text after it. \<open>d\<close> counts the containers that may still be entered. The
  loops of \<open>JSONObject\<close> and \<open>JSONArray\<close> go on with the text after the value just
  read, which is shorter: the test on the lengths says so, and never fails.
\<close>

function scan_once :: "python \<Rightarrow> nat \<Rightarrow> pystr \<Rightarrow> py_error + json \<times> pystr"
  and object_loop :: "python \<Rightarrow> nat \<Rightarrow> (pystr \<times> json) list \<Rightarrow> pystr \<Rightarrow> py_error + json \<times> pystr"
  and array_loop :: "python \<Rightarrow> nat \<Rightarrow> json list \<Rightarrow> pystr \<Rightarrow> py_error + json \<times> pystr"
where
  "scan_once rt d [] = Inl JSONDecodeError"
| "scan_once rt d (c # cs) =
     (if c = 34 then
        (case scanstring cs of None \<Rightarrow> Inl JSONDecodeError | Some (v, r) \<Rightarrow> Inr (JStr v, r))
      else if c = 123 then
        (if d = 0 then Inl RecursionError
         else (case skip_ws cs of
                 [] \<Rightarrow> Inl JSONDecodeError
               | n # r \<Rightarrow> if n = 125 then Inr (JObj [], r)
                          else if n = 34 then object_loop rt (d - 1) [] r
                          else Inl JSONDecodeError))
      else if c = 91 then
        (if d = 0 then Inl RecursionError
         else (case skip_ws cs of
                 [] \<Rightarrow> Inl JSONDecodeError
               | n # r \<Rightarrow> if n = 93 then Inr (JArr [], r)
                          else array_loop rt (d - 1) [] (n # r)))
      else (case after_prefix (str ''null'') (c # cs) of Some r \<Rightarrow> Inr (JNull, r) | None \<Rightarrow>
           (case after_prefix (str ''true'') (c # cs) of Some r \<Rightarrow> Inr (JBool True, r) | None \<Rightarrow>
           (case after_prefix (str ''false'') (c # cs) of Some r \<Rightarrow> Inr (JBool False, r) | None \<Rightarrow>
           (case match_number rt (c # cs) of Some res \<Rightarrow> res | None \<Rightarrow>
           (case after_prefix (str ''NaN'') (c # cs) of Some r \<Rightarrow> Inr (JFloat NaN, r) | None \<Rightarrow>
           (case after_prefix (str ''Infinity'') (c # cs) of Some r \<Rightarrow> Inr (JFloat (Infinity False), r) | None \<Rightarrow>
           (case after_prefix (str ''-Infinity'') (c # cs) of Some r \<Rightarrow> Inr (JFloat (Infinity True), r) | None \<Rightarrow>
            Inl JSONDecodeError))))))))"
| "object_loop rt d pairs s =
     (case scanstring s of
        None \<Rightarrow> Inl JSONDecodeError
      | Some (key, r1) \<Rightarrow>
          (case skip_ws r1 of
             [] \<Rightarrow> Inl JSONDecodeError
           | n # r2 \<Rightarrow>
               if n \<noteq> 58 then Inl JSONDecodeError
               else
                 (case scan_once rt d (skip_ws r2) of
                    Inl e \<Rightarrow> Inl e
                  | Inr (v, r3) \<Rightarrow>
                      if length s \<le> length r3 then Inl JSONDecodeError
                      else
                        (case skip_ws r3 of
                           [] \<Rightarrow> Inl JSONDecodeError
                         | m # r4 \<Rightarrow>
                             if m = 125 then Inr (JObj (dict_of_pairs (pairs @ [(key, v)])), r4)
                             else if m = 44 then
                               (case skip_ws r4 of
                                  [] \<Rightarrow> Inl JSONDecodeError
                                | q # r5 \<Rightarrow> if q = 34 then object_loop rt d (pairs @ [(key, v)]) r5
                                            else Inl JSONDecodeError)
                             else Inl JSONDecodeError))))"
| "array_loop rt d vals s =
     (case scan_once rt d s of
        Inl e \<Rightarrow> Inl e
      | Inr (v, r) \<Rightarrow>
          if length s \<le> length r then Inl JSONDecodeError
          else
            (case skip_ws r of
               [] \<Rightarrow> Inl JSONDecodeError
             | m # r' \<Rightarrow>
                 if m = 93 then Inr (JArr (vals @ [v]), r')
                 else if m = 44 then array_loop rt d (vals @ [v]) (skip_ws r')
                 else Inl JSONDecodeError))"
  by pat_completeness auto
termination
proof (relation "measure (\<lambda>x. case x of
          Inl (rt, d, s) \<Rightarrow> 2 * length s
        | Inr (Inl (rt, d, ps, s)) \<Rightarrow> 2 * length s + 1
        | Inr (Inr (rt, d, vs, s)) \<Rightarrow> 2 * length s + 1)", goal_cases)
  case 1
  then show ?case by simp
next
  case 2
  then show ?case by (auto dest: skip_ws_Cons)
next
  case 3
  then show ?case by (auto dest: skip_ws_Cons)
next
  case (4 rt d pairs s x key r1 n r2)
  then have "scanstring s = Some (key, r1)" by simp
  then have "length r1 < length s" by (rule scanstring_shorter)
  moreover have "length r2 < length r1" using 4 by (auto dest: skip_ws_Cons)
  moreover have "length (skip_ws r2) \<le> length r2" by (rule skip_ws_length)
  ultimately show ?case by simp
next
  case 5
  then show ?case by (auto dest!: skip_ws_Cons)
next
  case 6
  then show ?case by simp
next
  case (7 rt d vals s x v r m r')
  then have "length r' < length r" by (auto dest: skip_ws_Cons)
  moreover have "length (skip_ws r') \<le> length r'" by (rule skip_ws_length)
  ultimately show ?case using 7 by simp
qed

text \<open>The equations of the two loops rewrite a loop to itself: they are used by hand.\<close>

declare object_loop.simps [simp del] array_loop.simps [simp del]

text \<open>
  \<open>json.loads(s)\<close> for a \<open>str\<close>: no byte-order mark, white space, one value, white
  space, the end (\<open>JSONDecoder.decode\<close> and \<open>raw_decode\<close>).
\<close>

definition json_loads :: "python \<Rightarrow> pystr \<Rightarrow> py_error + json" where
  "json_loads rt s =
     (if after_prefix [65279] s \<noteq> None then Inl JSONDecodeError
      else (case scan_once rt (max_nesting rt) (skip_ws s) of
              Inl e \<Rightarrow> Inl e
            | Inr (v, r) \<Rightarrow> if skip_ws r = [] then Inr v else Inl JSONDecodeError))"

section \<open>\<open>json.dumps\<close>\<close>

text \<open>
  \<open>py_encode_basestring_ascii\<close>: the body of a JSON string with \<open>ensure_ascii\<close>, the
  default. Everything outside \<open>' '\<close> to \<open>'~'\<close> is escaped, a code point beyond
  \<open>0xFFFF\<close> as a surrogate pair.
\<close>

definition hexdigit :: "nat \<Rightarrow> nat" where
  "hexdigit d = (if d < 10 then 48 + d else 87 + d)"

definition u_escape :: "nat \<Rightarrow> pystr" where
  "u_escape n =
     [92, 117, hexdigit (n div 4096), hexdigit (n div 256 mod 16), hexdigit (n div 16 mod 16),
      hexdigit (n mod 16)]"

definition escape_char :: "nat \<Rightarrow> pystr" where
  "escape_char c =
     (if c = 34 then [92, 34] else if c = 92 then [92, 92]
      else if c = 10 then [92, 110] else if c = 13 then [92, 114] else if c = 9 then [92, 116]
      else if c = 8 then [92, 98] else if c = 12 then [92, 102]
      else if 32 \<le> c \<and> c \<le> 126 then [c]
      else if c < 65536 then u_escape c
      else u_escape (55296 + (c - 65536) div 1024 mod 1024) @ u_escape (56320 + (c - 65536) mod 1024))"

definition encode_basestring_ascii :: "pystr \<Rightarrow> pystr" where
  "encode_basestring_ascii s = [34] @ concat (map escape_char s) @ [34]"

function digits_of :: "nat \<Rightarrow> pystr" where
  "digits_of n = (if n < 10 then [48 + n] else digits_of (n div 10) @ [48 + n mod 10])"
  by pat_completeness auto
termination
  by (relation "measure id") auto

definition int_str :: "int \<Rightarrow> pystr" where
  "int_str i = (if i < 0 then 45 # digits_of (nat (- i)) else digits_of (nat i))"

fun join :: "pystr \<Rightarrow> pystr list \<Rightarrow> pystr" where
  "join sep [] = []"
| "join sep [x] = x"
| "join sep (x # y # ys) = x @ sep @ join sep (y # ys)"

fun json_dumps :: "python \<Rightarrow> json \<Rightarrow> pystr" where
  "json_dumps py JNull = str ''null''"
| "json_dumps py (JBool b) = (if b then str ''true'' else str ''false'')"
| "json_dumps py (JInt i) = int_str i"
| "json_dumps py (JFloat NaN) = str ''NaN''"
| "json_dumps py (JFloat (Infinity neg)) = (if neg then str ''-Infinity'' else str ''Infinity'')"
| "json_dumps py (JFloat (Decimal neg m e)) = format_value py (JFloat (Decimal neg m e))"
| "json_dumps py (JStr s) = encode_basestring_ascii s"
| "json_dumps py (JArr vs) = [91] @ join (str '', '') (map (json_dumps py) vs) @ [93]"
| "json_dumps py (JObj m) =
     [123] @ join (str '', '')
               (map (\<lambda>kv. encode_basestring_ascii (fst kv) @ str '': '' @ json_dumps py (snd kv)) m)
       @ [125]"

section \<open>The hidden metadata (main.py)\<close>

text \<open>\<open>create_hidden_metadata\<close>: the JSON of the data inside an HTML comment.\<close>

definition create_hidden_metadata :: "python \<Rightarrow> json \<Rightarrow> pystr" where
  "create_hidden_metadata py data = str ''<!-- readguard_meta: '' @ json_dumps py data @ str '' -->''"

text \<open>
  \<open>re.search(r'<!-- readguard_meta: (.*?) -->', text)\<close>. \<open>lazy_group\<close> is the rest of
  the pattern after the opening literal: the shortest run of characters other than a
  line feed that \<open>' -->'\<close> follows. \<open>search_meta\<close> tries every start from the left
  and returns \<open>match.group(1)\<close> of the first that matches.
\<close>

fun lazy_group :: "pystr \<Rightarrow> pystr option" where
  "lazy_group [] = None"
| "lazy_group (c # cs) =
     (if after_prefix (str '' -->'') (c # cs) \<noteq> None then Some []
      else if c = 10 then None
      else map_option ((#) c) (lazy_group cs))"

definition match_meta :: "pystr \<Rightarrow> pystr option" where
  "match_meta s =
     (case after_prefix (str ''<!-- readguard_meta: '') s of
        None \<Rightarrow> None
      | Some r \<Rightarrow> lazy_group r)"

fun search_meta :: "pystr \<Rightarrow> pystr option" where
  "search_meta [] = None"
| "search_meta (c # cs) =
     (case match_meta (c # cs) of
        Some g \<Rightarrow> Some g
      | None \<Rightarrow> search_meta cs)"

text \<open>
  \<open>extract_metadata\<close>: Python's \<open>None\<close> is \<open>JNull\<close>, also when \<open>json.loads\<close>
  returns it. Only \<open>json.JSONDecodeError\<close> is caught.
\<close>

definition extract_metadata :: "python \<Rightarrow> pystr \<Rightarrow> py_error + json" where
  "extract_metadata rt text =
     (case search_meta text of
        None \<Rightarrow> Inr JNull
      | Some g \<Rightarrow>
          (case json_loads rt g of
             Inl e \<Rightarrow> if e = JSONDecodeError then Inr JNull else Inl e
           | Inr v \<Rightarrow> Inr v))"

section \<open>The commitment (main.py)\<close>

text \<open>\<open>str.encode()\<close>: UTF-8; a surrogate cannot be encoded.\<close>

definition utf8_char :: "nat \<Rightarrow> nat list option" where
  "utf8_char c =
     (if c < 128 then Some [c]
      else if c < 2048 then Some [192 + c div 64, 128 + c mod 64]
      else if 55296 \<le> c \<and> c \<le> 57343 then None
      else if c < 65536 then Some [224 + c div 4096, 128 + c div 64 mod 64, 128 + c mod 64]
      else if c < 1114112 then
        Some [240 + c div 262144, 128 + c div 4096 mod 64, 128 + c div 64 mod 64, 128 + c mod 64]
      else None)"

fun encode :: "pystr \<Rightarrow> py_error + nat list" where
  "encode [] = Inr []"
| "encode (c # cs) =
     (case utf8_char c of
        None \<Rightarrow> Inl UnicodeEncodeError
      | Some b \<Rightarrow> (case encode cs of Inl e \<Rightarrow> Inl e | Inr bs \<Rightarrow> Inr (b @ bs)))"

text \<open>What an f-string puts in the place of a value.\<close>

definition format :: "python \<Rightarrow> json \<Rightarrow> pystr" where
  "format py v = (case v of JStr s \<Rightarrow> s | _ \<Rightarrow> format_value py v)"

text \<open>
  \<open>compute_hash(answer, salt)\<close>: \<open>answer.strip().upper()\<close>, then
  \<open>f"{answer}:{salt}"\<close>. Only a \<open>str\<close> has \<open>strip\<close>; the salt is whatever the
  metadata holds. \<open>hashed_bytes\<close> is \<open>data.encode()\<close>, what the digest is taken of.
\<close>

definition hashed_bytes :: "python \<Rightarrow> pystr \<Rightarrow> json \<Rightarrow> py_error + nat list" where
  "hashed_bytes py answer salt = encode (str_upper py (strip answer) @ [58] @ format py salt)"

definition compute_hash :: "python \<Rightarrow> json \<Rightarrow> json \<Rightarrow> py_error + pystr" where
  "compute_hash py answer salt =
     (case answer of
        JStr a \<Rightarrow>
          (case hashed_bytes py a salt of
             Inl e \<Rightarrow> Inl e
           | Inr data \<Rightarrow> Inr (sha256_hexdigest py data))
      | _ \<Rightarrow> Inl AttributeError)"

text \<open>
  The verification of \<open>run_verify_mode\<close> (step 3): the hash of the claimed answer
  with the stored salt is computed afresh and compared with the stored hash.
\<close>

definition verify :: "python \<Rightarrow> pystr \<Rightarrow> json \<Rightarrow> json \<Rightarrow> py_error + bool" where
  "verify py claimed salt expected_hash =
     (case compute_hash py (JStr claimed) salt of
        Inl e \<Rightarrow> Inl e
      | Inr computed_hash \<Rightarrow> Inr (JStr computed_hash = expected_hash))"

section \<open>Python values\<close>

text \<open>Truth of a value: \<open>float\<close> rounds a decimal to zero exactly when it is at most \<open>2^-1075\<close>.\<close>

definition float_truthy :: "pyfloat \<Rightarrow> bool" where
  "float_truthy f =
     (case f of
        NaN \<Rightarrow> True
      | Infinity _ \<Rightarrow> True
      | Decimal _ m e \<Rightarrow> 10 ^ nat (- e) < m * 2 ^ 1075 * 10 ^ nat e)"

definition truthy :: "json \<Rightarrow> bool" where
  "truthy v =
     (case v of
        JNull \<Rightarrow> False
      | JBool b \<Rightarrow> b
      | JInt i \<Rightarrow> i \<noteq> 0
      | JFloat f \<Rightarrow> float_truthy f
      | JStr s \<Rightarrow> s \<noteq> []
      | JArr vs \<Rightarrow> vs \<noteq> []
      | JObj m \<Rightarrow> m \<noteq> [])"

text \<open>\<open>v.get(key)\<close> and \<open>v[key]\<close> with a \<open>str\<close> key.\<close>

definition get :: "json \<Rightarrow> pystr \<Rightarrow> py_error + json" where
  "get v key =
     (case v of
        JObj m \<Rightarrow> (case map_of m key of None \<Rightarrow> Inr JNull | Some x \<Rightarrow> Inr x)
      | _ \<Rightarrow> Inl AttributeError)"

definition getitem :: "json \<Rightarrow> pystr \<Rightarrow> py_error + json" where
  "getitem v key =
     (case v of
        JObj m \<Rightarrow> (case map_of m key of None \<Rightarrow> Inl KeyError | Some x \<Rightarrow> Inr x)
      | _ \<Rightarrow> Inl TypeError)"

section \<open>The GitHub client (github_client.py)\<close>

text \<open>
  The pull request as the calls of the program see it: the head commit, the bodies
  of its issue comments in the order \<open>get_issue_comments\<close> lists them (oldest first),
  and its files. \<open>None\<close> is a client outside a pull request. What the program does
  to the outside is the list of its calls, in order.
\<close>

record changed_file =
  filename :: pystr
  patch :: "pystr option"

record pull_request =
  head_sha :: pystr
  issue_comments :: "pystr list"
  files :: "changed_file list"

type_synonym gh_client = "pull_request option"

record check_run =
  name :: pystr
  commit :: pystr
  status :: pystr
  conclusion :: pystr
  title :: pystr
  summary :: pystr

datatype action =
    QueryLLM pystr pystr "pystr option" "pystr option"
  | PostComment pystr
  | CreateCheckRun check_run

datatype outcome = Returned | Exit nat | Raised py_error

definition CHECK_NAME :: pystr where
  "CHECK_NAME = str ''ReadGuard Verification''"

section \<open>Verify mode (main.py)\<close>

text \<open>
  The loop over \<open>reversed(list(comments))\<close>: the argument is the history newest
  first. A value that is true and no \<open>dict\<close> has no \<open>get\<close>.
\<close>

fun find_quiz :: "python \<Rightarrow> pystr list \<Rightarrow> py_error + json" where
  "find_quiz rt [] = Inr JNull"
| "find_quiz rt (body # older) =
     (case extract_metadata rt body of
        Inl e \<Rightarrow> Inl e
      | Inr meta \<Rightarrow>
          if truthy meta then
            (case get meta (str ''mode'') of
               Inl e \<Rightarrow> Inl e
             | Inr mode \<Rightarrow> if mode = JStr (str ''quiz'') then Inr meta else find_quiz rt older)
          else find_quiz rt older)"

definition correct_comment :: "pystr \<Rightarrow> pystr" where
  "correct_comment answer =
     [9989] @ str '' Correct! The answer was **'' @ answer @ str ''**. verification successful.''"

definition incorrect_comment :: pystr where
  "incorrect_comment = [10060] @ str '' Incorrect. Please try again.''"

definition verified_check :: "pystr \<Rightarrow> check_run" where
  "verified_check sha =
     \<lparr>name = CHECK_NAME, commit = sha, status = str ''completed'', conclusion = str ''success'',
      title = str ''ReadGuard Verified'',
      summary = str ''Developer successfully answered the proof-of-reading quiz.''\<rparr>"

definition failed_check :: "pystr \<Rightarrow> check_run" where
  "failed_check sha =
     \<lparr>name = CHECK_NAME, commit = sha, status = str ''completed'', conclusion = str ''failure'',
      title = str ''ReadGuard Failed'', summary = str ''Incorrect answer provided.''\<rparr>"

text \<open>
  \<open>run_verify_mode\<close>, for the body of the comment of the event: the calls made and
  how the run ends. \<open>sys.exit(n)\<close> is \<open>Exit n\<close>.
\<close>

definition run_verify_mode :: "python \<Rightarrow> gh_client \<Rightarrow> pystr \<Rightarrow> action list \<times> outcome" where
  "run_verify_mode py gh body =
     (case user_answer body of
        None \<Rightarrow> ([], Exit 0)
      | Some answer \<Rightarrow>
          (case gh of
             None \<Rightarrow> ([], Raised ValueError)
           | Some pr \<Rightarrow>
               (case find_quiz py (rev (issue_comments pr)) of
                  Inl e \<Rightarrow> ([], Raised e)
                | Inr metadata \<Rightarrow>
                    if \<not> truthy metadata then ([], Exit 1)
                    else
                      (case getitem metadata (str ''hash'') of
                         Inl e \<Rightarrow> ([], Raised e)
                       | Inr expected_hash \<Rightarrow>
                           (case getitem metadata (str ''salt'') of
                              Inl e \<Rightarrow> ([], Raised e)
                            | Inr salt \<Rightarrow>
                                (case verify py answer salt expected_hash of
                                   Inl e \<Rightarrow> ([], Raised e)
                                 | Inr matched \<Rightarrow>
                                     if matched then
                                       ([PostComment (correct_comment answer),
                                         CreateCheckRun (verified_check (head_sha pr))], Returned)
                                     else
                                       ([PostComment incorrect_comment,
                                         CreateCheckRun (failed_check (head_sha pr))], Returned)))))))"

section \<open>The question generator (llm_client.py)\<close>

text \<open>
  The reply of the model's API: a failure of the call, or the text of the message.
  \<open>_generate_openai\<close> and \<open>_generate_gemini\<close> parse the text and turn every
  exception into \<open>None\<close>.
\<close>

datatype api_reply = ApiFailure | Content pystr

datatype provider = OpenAI | Gemini

definition generate_openai :: "python \<Rightarrow> api_reply \<Rightarrow> json" where
  "generate_openai rt reply =
     (case reply of
        ApiFailure \<Rightarrow> JNull
      | Content c \<Rightarrow> (case json_loads rt c of Inl e \<Rightarrow> JNull | Inr v \<Rightarrow> v))"

definition generate_gemini :: "python \<Rightarrow> api_reply \<Rightarrow> json" where
  "generate_gemini rt reply =
     (case reply of
        ApiFailure \<Rightarrow> JNull
      | Content c \<Rightarrow> (case json_loads rt c of Inl e \<Rightarrow> JNull | Inr v \<Rightarrow> v))"

definition generate_question :: "python \<Rightarrow> provider \<Rightarrow> api_reply \<Rightarrow> json" where
  "generate_question rt p reply =
     (case p of OpenAI \<Rightarrow> generate_openai rt reply | Gemini \<Rightarrow> generate_gemini rt reply)"

section \<open>Generate mode (main.py)\<close>

record inputs =
  difficulty :: "pystr option"
  system_prompt :: "pystr option"
  custom_instructions :: "pystr option"

text \<open>The loop that builds \<open>diff_text\<close>: a file without a patch, or with an empty one, is skipped.\<close>

fun diff_text :: "changed_file list \<Rightarrow> pystr" where
  "diff_text [] = []"
| "diff_text (f # fs) =
     (case patch f of
        None \<Rightarrow> diff_text fs
      | Some p \<Rightarrow>
          if p = [] then diff_text fs
          else str ''File: '' @ filename f @ [10] @ p @ [10, 10] @ diff_text fs)"

text \<open>
  The metadata of a challenge (\<open>metadata = {"salt": salt, "hash": correct_hash,
  "mode": "quiz"}\<close>). The salt is what \<open>secrets.token_hex(16)\<close> returns and the hash
  what \<open>hexdigest()\<close> returns: texts of the hexadecimal digits \<open>0123456789abcdef\<close>.
\<close>

definition hexadecimal :: "pystr \<Rightarrow> bool" where
  "hexadecimal s \<longleftrightarrow> (\<forall>c\<in>set s. c \<in> set (str ''0123456789abcdef''))"

definition quiz_metadata :: "pystr \<Rightarrow> pystr \<Rightarrow> json" where
  "quiz_metadata salt correct_hash =
     JObj [(str ''salt'', JStr salt), (str ''hash'', JStr correct_hash), (str ''mode'', JStr (str ''quiz''))]"

definition quiz_comment :: "python \<Rightarrow> json \<Rightarrow> json \<Rightarrow> json \<Rightarrow> json \<Rightarrow> json \<Rightarrow> pystr" where
  "quiz_comment py question a b c metadata =
     [10] @ str ''## '' @ [128737] @ [65039] @ str '' ReadGuard Verification'' @ [10] @ str ''    '' @ [10]
     @ str ''**Proof-of-Reading Required**'' @ [10]
     @ str ''The following question has been generated based on the changes in this PR.'' @ [10] @ [10]
     @ str ''**'' @ format py question @ str ''**'' @ [10] @ [10]
     @ str ''- **A)** '' @ format py a @ [10]
     @ str ''- **B)** '' @ format py b @ [10]
     @ str ''- **C)** '' @ format py c @ [10] @ [10]
     @ str ''Reply with '' @ [96] @ str ''/answer A'' @ [96] @ str '', '' @ [96] @ str ''/answer B'' @ [96]
     @ str '', or '' @ [96] @ str ''/answer C'' @ [96] @ str '' to unlock the merge.'' @ [10] @ [10]
     @ create_hidden_metadata py metadata @ [10]"

definition quiz_check :: "pystr \<Rightarrow> check_run" where
  "quiz_check sha =
     \<lparr>name = CHECK_NAME, commit = sha, status = str ''completed'',
      conclusion = str ''action_required'', title = str ''ReadGuard Quiz'',
      summary = str ''Please answer the quiz in the PR comments to proceed.''\<rparr>"

text \<open>
  The part of \<open>run_generate_mode\<close> after the question has come back: it raises
  before it has called anything, or it posts the comment and creates the check run.
  \<open>salt\<close> is what \<open>secrets.token_hex(16)\<close> returned.
\<close>

definition post_quiz :: "python \<Rightarrow> pull_request \<Rightarrow> pystr \<Rightarrow> json \<Rightarrow> action list \<times> outcome" where
  "post_quiz py pr salt q_data =
     (case getitem q_data (str ''correct_answer'') of
        Inl e \<Rightarrow> ([], Raised e)
      | Inr correct_answer \<Rightarrow>
     (case compute_hash py correct_answer (JStr salt) of
        Inl e \<Rightarrow> ([], Raised e)
      | Inr correct_hash \<Rightarrow>
     (case getitem q_data (str ''question'') of
        Inl e \<Rightarrow> ([], Raised e)
      | Inr question \<Rightarrow>
     (case getitem q_data (str ''options'') of
        Inl e \<Rightarrow> ([], Raised e)
      | Inr options \<Rightarrow>
     (case getitem options (str ''A'') of
        Inl e \<Rightarrow> ([], Raised e)
      | Inr a \<Rightarrow>
     (case getitem options (str ''B'') of
        Inl e \<Rightarrow> ([], Raised e)
      | Inr b \<Rightarrow>
     (case getitem options (str ''C'') of
        Inl e \<Rightarrow> ([], Raised e)
      | Inr c \<Rightarrow>
          ([PostComment (quiz_comment py question a b c (quiz_metadata salt correct_hash)),
            CreateCheckRun (quiz_check (head_sha pr))], Returned))))))))"

text \<open>
  \<open>run_generate_mode\<close>, given the reply the API will give and the salt the random
  source will give. The call of the question generator is the first entry of the
  list of calls.
\<close>

definition run_generate_mode ::
  "python \<Rightarrow> gh_client \<Rightarrow> provider \<Rightarrow> inputs \<Rightarrow> api_reply \<Rightarrow> pystr \<Rightarrow> action list \<times> outcome"
where
  "run_generate_mode py gh p inp reply salt =
     (case gh of
        None \<Rightarrow> ([], Raised ValueError)
      | Some pr \<Rightarrow>
          (let d = diff_text (files pr) in
           if d = [] then ([], Returned)
           else
             (let query = QueryLLM (take 10000 d)
                            (case difficulty inp of None \<Rightarrow> str ''medium'' | Some x \<Rightarrow> x)
                            (system_prompt inp) (custom_instructions inp);
                  q_data = generate_question py p reply
              in if \<not> truthy q_data then ([query], Exit 1)
                 else (case post_quiz py pr salt q_data of (acts, out) \<Rightarrow> (query # acts, out)))))"

text \<open>
  A comment that decodes to a record whose \<open>mode\<close> is \<open>quiz\<close>: what the spec calls a
  quiz-tagged record.
\<close>

definition is_quiz_record :: "python \<Rightarrow> pystr \<Rightarrow> bool" where
  "is_quiz_record py body =
     (case extract_metadata py body of
        Inr (JObj m) \<Rightarrow> map_of m (str ''mode'') = Some (JStr (str ''quiz''))
      | _ \<Rightarrow> False)"

text \<open>\<open>p in s\<close> for two texts: \<open>p\<close> occurs somewhere in \<open>s\<close>.\<close>

fun contains :: "pystr \<Rightarrow> pystr \<Rightarrow> bool" where
  "contains [] p = (p = [])"
| "contains (c # cs) p = (after_prefix p (c # cs) \<noteq> None \<or> contains cs p)"

text \<open>
  A Unicode scalar value: a code point that is no surrogate, which is what UTF-8 can
  encode. A text of scalar values is what a \<open>str\<close> normally holds.
\<close>

definition scalar :: "nat \<Rightarrow> bool" where
  "scalar c \<longleftrightarrow> c < 1114112 \<and> \<not> (55296 \<le> c \<and> c \<le> 57343)"

definition valid_text :: "pystr \<Rightarrow> bool" where
  "valid_text s \<longleftrightarrow> (\<forall>c\<in>set s. scalar c)"

text \<open>A flat record with string fields, as a \<open>dict\<close> of \<open>str\<close> to \<open>str\<close>.\<close>

definition string_record :: "(pystr \<times> pystr) list \<Rightarrow> json" where
  "string_record kvs = JObj (map (\<lambda>kv. (fst kv, JStr (snd kv))) kvs)"

text \<open>The JSON text of one item of such a record.\<close>

definition itext :: "pystr \<times> pystr \<Rightarrow> pystr" where
  "itext kv = encode_basestring_ascii (fst kv) @ str '': '' @ encode_basestring_ascii (snd kv)"

text \<open>
  An interpreter for the examples: limits as CPython 3.11 has them, and simple
  functions in the places of SHA-256, of \<open>str\<close> and of the upper-case mapping
  outside ASCII. \<open>hex_bytes\<close> writes every byte as two hexadecimal digits, so it is a
  digest without collisions; the examples do not format a value that is no \<open>str\<close>,
  and their answers are ASCII.
\<close>

definition hex_bytes :: "nat list \<Rightarrow> pystr" where
  "hex_bytes b = concat (map (\<lambda>x. [hexdigit (x div 16), hexdigit (x mod 16)]) b)"

definition example_python :: python where
  "example_python =
     \<lparr>max_nesting = 990, int_max_str_digits = 4300, sha256_hexdigest = hex_bytes,
      format_value = (\<lambda>v. []), upper_nonascii = (\<lambda>c. [c])\<rparr>"

text \<open>The answer labels.\<close>

definition labels :: "pystr list" where
  "labels = [str ''A'', str ''B'', str ''C'']"

text \<open>
  The digest does not collide on what is hashed for the two answers with a salt: the
  two byte strings differ, and so do their digests.
\<close>

definition no_collision :: "python \<Rightarrow> pystr \<Rightarrow> pystr \<Rightarrow> json \<Rightarrow> bool" where
  "no_collision py L L' salt \<longleftrightarrow>
     (\<forall>b b'. hashed_bytes py L salt = Inr b \<and> hashed_bytes py L' salt = Inr b' \<and> b \<noteq> b' \<longrightarrow>
        sha256_hexdigest py b \<noteq> sha256_hexdigest py b')"

text \<open>
  A comment that holds the metadata of a quiz whose answer is \<open>B\<close>, with the salt
  \<open>ab12\<close>, for the example interpreter.
\<close>

definition example_quiz :: pystr where
  "example_quiz = create_hidden_metadata example_python (quiz_metadata (str ''ab12'') (str ''423a61623132''))"

text \<open>
  A comment the scan passes over: its metadata decodes without an exception to a
  value that is false (no marker and unparsable content among them), or to a \<open>dict\<close>
  whose mode is not \<open>quiz\<close>.
\<close>

definition passed_over :: "python \<Rightarrow> pystr \<Rightarrow> bool" where
  "passed_over py body =
     (case extract_metadata py body of
        Inl e \<Rightarrow> False
      | Inr v \<Rightarrow>
          \<not> truthy v \<or>
          (case v of JObj m \<Rightarrow> map_of m (str ''mode'') \<noteq> Some (JStr (str ''quiz'')) | _ \<Rightarrow> False))"

text \<open>A question as the generator returns one, with the answer \<open>B\<close>.\<close>

definition example_question :: json where
  "example_question =
     JObj [(str ''question'', JStr (str ''What is the new timeout?'')),
           (str ''options'', JObj [(str ''A'', JStr (str ''10 s'')), (str ''B'', JStr (str ''30 s'')),
                                   (str ''C'', JStr (str ''60 s''))]),
           (str ''correct_answer'', JStr (str ''B''))]"

section \<open>Properties of the reply parser\<close>

lemma after_prefix_iff: "after_prefix p s = Some r \<longleftrightarrow> s = p @ r"
  by (induction p s rule: after_prefix.induct) auto

lemma after_prefix_append [simp]: "after_prefix p (p @ r) = Some r"
  by (simp add: after_prefix_iff)

lemma isspace_not_letter: "answer_letter c \<Longrightarrow> \<not> isspace c"
  by (auto simp: answer_letter_def isspace_def)

lemma match_answer_intro:
  assumes "ws \<noteq> []" and "\<forall>w\<in>set ws. isspace w" and "answer_letter c"
  shows "match_answer (str ''/answer'' @ ws @ c # rest) = Some c"
proof -
  have d: "dropWhile isspace (ws @ c # rest) = c # rest"
    using assms(2,3) by (simp add: dropWhile_append3 isspace_not_letter)
  have l: "length (c # rest) \<noteq> length (ws @ c # rest)"
    using assms(1) by simp
  show ?thesis
    using d l assms(3) by (simp add: match_answer_def)
qed

lemma match_answer_elim:
  assumes "match_answer s = Some c"
  shows "\<exists>ws rest. s = str ''/answer'' @ ws @ c # rest \<and> ws \<noteq> [] \<and>
           (\<forall>w\<in>set ws. isspace w) \<and> answer_letter c"
proof -
  from assms obtain r where p: "after_prefix (str ''/answer'') s = Some r"
    by (auto simp: match_answer_def split: option.splits)
  define ws where "ws = takeWhile isspace r"
  from assms p obtain rest where
    r': "dropWhile isspace r = c # rest" and n: "length (dropWhile isspace r) \<noteq> length r"
    and c: "answer_letter c"
    by (auto simp: match_answer_def Let_def split: if_splits list.splits)
  have s: "s = str ''/answer'' @ r"
    using p by (simp add: after_prefix_iff)
  have r: "r = ws @ c # rest"
    using r' by (metis takeWhile_dropWhile_id ws_def)
  have "ws \<noteq> []"
    using n r r' by auto
  moreover have "\<forall>w\<in>set ws. isspace w"
    by (auto simp: ws_def dest: set_takeWhileD)
  ultimately show ?thesis
    using s r c by blast
qed

text \<open>
  C9. The reply parser is anchored at the start only: a comment is an answer attempt
  with letter \<open>c\<close> exactly when its stripped text is \<open>/answer\<close>, at least one
  white-space character, the letter \<open>c\<close> among \<open>a-c\<close>, \<open>A-C\<close>, and then anything at
  all; so \<open>/answer ABC\<close> answers \<open>A\<close>, and a text in which the pattern comes after
  other leading text is no attempt.
\<close>

theorem reply_anchored_at_start_only:
  "(user_answer body = Some L \<longleftrightarrow>
      (\<exists>ws c rest. strip body = str ''/answer'' @ ws @ c # rest \<and> ws \<noteq> [] \<and>
         (\<forall>w\<in>set ws. isspace w) \<and> answer_letter c \<and> L = [upper_char c]))
   \<and> user_answer (str ''/answer ABC'') = Some (str ''A'')
   \<and> user_answer (str ''please /answer B'') = None"
proof (intro conjI iffI)
  assume "user_answer body = Some L"
  then obtain c where m: "match_answer (strip body) = Some c" and L: "L = [upper_char c]"
    by (auto simp: user_answer_def upper_def)
  from match_answer_elim [OF m] L
  show "\<exists>ws c rest. strip body = str ''/answer'' @ ws @ c # rest \<and> ws \<noteq> [] \<and>
         (\<forall>w\<in>set ws. isspace w) \<and> answer_letter c \<and> L = [upper_char c]"
    by blast
next
  assume "\<exists>ws c rest. strip body = str ''/answer'' @ ws @ c # rest \<and> ws \<noteq> [] \<and>
         (\<forall>w\<in>set ws. isspace w) \<and> answer_letter c \<and> L = [upper_char c]"
  then obtain ws c rest where s: "strip body = str ''/answer'' @ ws @ c # rest"
    and h: "ws \<noteq> []" "\<forall>w\<in>set ws. isspace w" "answer_letter c" and L: "L = [upper_char c]"
    by blast
  show "user_answer body = Some L"
    using match_answer_intro [OF h] s L by (simp add: user_answer_def upper_def)
next
  show "user_answer (str ''/answer ABC'') = Some (str ''A'')"
    by (simp add: user_answer_def match_answer_def strip_def str_def
        isspace_def answer_letter_def upper_def upper_char_def)
next
  show "user_answer (str ''please /answer B'') = None"
    by (simp add: user_answer_def match_answer_def strip_def str_def isspace_def)
qed

theorem reply_anchored_at_start_only_witness:
  "user_answer (str ''/answer  cxyz'') = Some (str ''C'')"
proof -
  have s: "strip (str ''/answer  cxyz'') = str ''/answer'' @ [32, 32] @ 99 # str ''xyz''"
    by (simp add: strip_def str_def isspace_def)
  have "\<exists>ws c rest. strip (str ''/answer  cxyz'') = str ''/answer'' @ ws @ c # rest \<and> ws \<noteq> [] \<and>
         (\<forall>w\<in>set ws. isspace w) \<and> answer_letter c \<and> str ''C'' = [upper_char c]"
    apply (rule exI [of _ "[32, 32]"])
    apply (rule exI [of _ 99])
    apply (rule exI [of _ "str ''xyz''"])
    apply (simp add: s isspace_def answer_letter_def upper_char_def)
    apply (simp add: str_def)
    done
  then show ?thesis
    using reply_anchored_at_start_only [of "str ''/answer  cxyz''" "str ''C''"] by blast
qed

section \<open>The decoder consumes what it reads\<close>

lemma after_prefix_shorter: "after_prefix p s = Some r \<Longrightarrow> p \<noteq> [] \<Longrightarrow> length r < length s"
  by (auto simp: after_prefix_iff)

lemma after_prefix_str_shorter: "after_prefix (str (x # xs)) s = Some r \<Longrightarrow> length r < length s"
  by (erule after_prefix_shorter) (simp add: str_def)

lemma match_integer_shorter: "match_integer s = Some (ip, r) \<Longrightarrow> length r < length s"
  using length_dropWhile_le [of isdigit "tl s"]
  by (auto simp: match_integer_def less_Suc_eq_le split: list.splits if_splits)

lemma match_frac_le: "match_frac s = (fp, r) \<Longrightarrow> length r \<le> length s"
proof -
  assume a: "match_frac s = (fp, r)"
  show ?thesis
  proof (cases s)
    case Nil
    with a show ?thesis by (simp add: match_frac_def)
  next
    case (Cons c t)
    show ?thesis
    proof (cases t)
      case Nil
      with a Cons show ?thesis by (simp add: match_frac_def)
    next
      case (Cons d u)
      have "length (dropWhile isdigit u) \<le> length u" by (rule length_dropWhile_le)
      with a \<open>s = c # t\<close> Cons show ?thesis
        by (auto simp: match_frac_def split: if_splits)
    qed
  qed
qed

lemma match_exp_le: "match_exp s = (ex, r) \<Longrightarrow> length r \<le> length s"
proof -
  assume a: "match_exp s = (ex, r)"
  show ?thesis
  proof (cases s)
    case Nil
    with a show ?thesis by (simp add: match_exp_def)
  next
    case (Cons c t)
    have 1: "length (dropWhile isdigit t) \<le> length t" by (rule length_dropWhile_le)
    have 2: "length (dropWhile isdigit (tl t)) \<le> length (tl t)" by (rule length_dropWhile_le)
    from a Cons 1 2 show ?thesis
      by (auto simp: match_exp_def Let_def split: if_splits list.splits)
  qed
qed

lemma match_sign_le: "match_sign s = (neg, r) \<Longrightarrow> length r \<le> length s"
  by (auto simp: match_sign_def split: list.splits if_splits)

lemma match_number_shorter:
  assumes "match_number rt s = Some (Inr (v, r))"
  shows "length r < length s"
proof -
  obtain neg s1 where s1: "match_sign s = (neg, s1)" by (cases "match_sign s")
  from assms s1 obtain ip s2 where s2: "match_integer s1 = Some (ip, s2)"
    by (auto simp: match_number_def split: option.splits)
  obtain fp s3 where s3: "match_frac s2 = (fp, s3)" by (cases "match_frac s2")
  obtain ex s4 where s4: "match_exp s3 = (ex, s4)" by (cases "match_exp s3")
  from assms s1 s2 s3 s4 have "r = s4"
    by (auto simp: match_number_def Let_def split: if_splits)
  with match_sign_le [OF s1] match_integer_shorter [OF s2] match_frac_le [OF s3] match_exp_le [OF s4]
  show ?thesis by simp
qed

lemma scan_shorter:
  "\<forall>v r. scan_once rt d s = Inr (v, r) \<longrightarrow> length r < length s"
  "\<forall>v r. object_loop rt d ps s' = Inr (v, r) \<longrightarrow> length r < length s'"
  "\<forall>v r. array_loop rt d vs s'' = Inr (v, r) \<longrightarrow> length r < length s''"
proof (induction rt d s and rt d ps s' and rt d vs s'' rule: scan_once_object_loop_array_loop.induct)
  case (1 rt d)
  show ?case by simp
next
  case (2 rt d c cs)
  show ?case
  proof (intro allI impI)
    fix v r
    assume a: "scan_once rt d (c # cs) = Inr (v, r)"
    consider (str) "c = 34" | (obj) "c = 123" | (arr) "c = 91" | (other) "c \<noteq> 34" "c \<noteq> 123" "c \<noteq> 91"
      by blast
    then show "length r < length (c # cs)"
    proof cases
      case str
      with a show ?thesis
        by (auto split: option.splits dest: scanstring_shorter)
    next
      case obj
      with a "2.IH"(1) show ?thesis
        by (auto split: if_splits list.splits dest!: skip_ws_Cons)
    next
      case arr
      with a "2.IH"(2) show ?thesis
        using skip_ws_length [of cs]
        by (auto split: if_splits list.splits dest!: skip_ws_Cons)
    next
      case other
      with a show ?thesis
        by (auto split: option.splits dest: after_prefix_str_shorter match_number_shorter)
    qed
  qed
next
  case (3 rt d pairs s)
  show ?case
  proof (intro allI impI)
    fix v r
    assume a: "object_loop rt d pairs s = Inr (v, r)"
    from a obtain key r1 where k: "scanstring s = Some (key, r1)"
      by (subst (asm) object_loop.simps) (auto split: option.splits)
    from a k obtain r2 where r2: "skip_ws r1 = 58 # r2"
      by (subst (asm) object_loop.simps) (auto split: list.splits if_splits)
    from a k r2 obtain w r3 where w: "scan_once rt d (skip_ws r2) = Inr (w, r3)" and g: "length r3 < length s"
      by (subst (asm) object_loop.simps) (auto split: sum.splits if_splits)
    from a k r2 w g obtain m r4 where r4: "skip_ws r3 = m # r4"
      by (subst (asm) object_loop.simps) (auto split: list.splits)
    have l4: "length r4 < length s"
      using skip_ws_Cons [OF r4] g by simp
    show "length r < length s"
    proof (cases "m = 125")
      case True
      with a k r2 w g r4 have "r = r4"
        by (subst (asm) object_loop.simps) simp
      with l4 show ?thesis by simp
    next
      case False
      with a k r2 w g r4 obtain r5 where m: "m = 44" and r5: "skip_ws r4 = 34 # r5"
        and rec: "object_loop rt d (pairs @ [(key, w)]) r5 = Inr (v, r)"
        by (subst (asm) object_loop.simps) (auto split: list.splits if_splits)
      have "length r < length r5"
        using "3.IH"(2) [OF k refl r2 _ w refl _ r4 False m r5 refl] g rec by simp
      with skip_ws_Cons [OF r5] l4 show ?thesis by simp
    qed
  qed
next
  case (4 rt d vals s)
  show ?case
  proof (intro allI impI)
    fix v r
    assume a: "array_loop rt d vals s = Inr (v, r)"
    from a obtain w r1 where w: "scan_once rt d s = Inr (w, r1)" and g: "length r1 < length s"
      by (subst (asm) array_loop.simps) (auto split: sum.splits if_splits)
    from a w g obtain m r2 where r2: "skip_ws r1 = m # r2"
      by (subst (asm) array_loop.simps) (auto split: list.splits)
    have l2: "length r2 < length s"
      using skip_ws_Cons [OF r2] g by simp
    show "length r < length s"
    proof (cases "m = 93")
      case True
      with a w g r2 have "r = r2"
        by (subst (asm) array_loop.simps) simp
      with l2 show ?thesis by simp
    next
      case False
      with a w g r2 have m: "m = 44" and rec: "array_loop rt d (vals @ [w]) (skip_ws r2) = Inr (v, r)"
        by (subst (asm) array_loop.simps, auto split: if_splits)+
      have "length r < length (skip_ws r2)"
        using "4.IH"(2) [OF w refl _ r2 False m] g rec by simp
      with skip_ws_length [of r2] l2 show ?thesis by simp
    qed
  qed
qed


text \<open>So the tests on the lengths in the two loops never fail: the loops are as in the source.\<close>

lemma array_loop_eq:
  "array_loop rt d vals s =
     (case scan_once rt d s of
        Inl e \<Rightarrow> Inl e
      | Inr (v, r) \<Rightarrow>
          (case skip_ws r of
             [] \<Rightarrow> Inl JSONDecodeError
           | m # r' \<Rightarrow>
               if m = 93 then Inr (JArr (vals @ [v]), r')
               else if m = 44 then array_loop rt d (vals @ [v]) (skip_ws r')
               else Inl JSONDecodeError))"
proof (cases "scan_once rt d s")
  case (Inl e)
  then show ?thesis by (subst array_loop.simps) simp
next
  case (Inr p)
  obtain v r where p: "p = (v, r)" by (cases p)
  with Inr scan_shorter(1) [of rt d s] have "length r < length s" by blast
  with Inr p show ?thesis by (subst array_loop.simps) simp
qed

lemma object_loop_eq:
  "object_loop rt d pairs s =
     (case scanstring s of
        None \<Rightarrow> Inl JSONDecodeError
      | Some (key, r1) \<Rightarrow>
          (case skip_ws r1 of
             [] \<Rightarrow> Inl JSONDecodeError
           | n # r2 \<Rightarrow>
               if n \<noteq> 58 then Inl JSONDecodeError
               else
                 (case scan_once rt d (skip_ws r2) of
                    Inl e \<Rightarrow> Inl e
                  | Inr (v, r3) \<Rightarrow>
                      (case skip_ws r3 of
                         [] \<Rightarrow> Inl JSONDecodeError
                       | m # r4 \<Rightarrow>
                           if m = 125 then Inr (JObj (dict_of_pairs (pairs @ [(key, v)])), r4)
                           else if m = 44 then
                             (case skip_ws r4 of
                                [] \<Rightarrow> Inl JSONDecodeError
                              | q # r5 \<Rightarrow> if q = 34 then object_loop rt d (pairs @ [(key, v)]) r5
                                          else Inl JSONDecodeError)
                           else Inl JSONDecodeError))))"
proof (cases "scanstring s")
  case None
  then show ?thesis by (subst object_loop.simps) simp
next
  case (Some p)
  obtain key r1 where p: "p = (key, r1)" by (cases p)
  show ?thesis
  proof (cases "skip_ws r1")
    case Nil
    with Some p show ?thesis by (subst object_loop.simps) simp
  next
    case (Cons n r2)
    show ?thesis
    proof (cases "scan_once rt d (skip_ws r2)")
      case (Inl e)
      with Some p Cons show ?thesis by (subst object_loop.simps) simp
    next
      case (Inr q)
      obtain v r3 where q: "q = (v, r3)" by (cases q)
      have "length r3 < length (skip_ws r2)" using Inr q scan_shorter(1) by blast
      moreover have "length (skip_ws r2) \<le> length r2" by (rule skip_ws_length)
      moreover have "length r2 < length r1" using Cons by (rule skip_ws_Cons)
      moreover have "length r1 < length s" using Some p by (auto dest: scanstring_shorter)
      ultimately have "length r3 < length s" by simp
      with Some p Cons Inr q show ?thesis by (subst object_loop.simps) simp
    qed
  qed
qed

section \<open>The reply and the history\<close>

lemma find_quiz_step_quiz:
  assumes "extract_metadata py body = Inr meta" "truthy meta" "get meta (str ''mode'') = Inr (JStr (str ''quiz''))"
  shows "is_quiz_record py body"
  using assms by (auto simp: is_quiz_record_def get_def split: json.splits option.splits)

lemma find_quiz_no_record:
  "\<forall>b\<in>set h. \<not> is_quiz_record py b \<Longrightarrow> find_quiz py h = Inr v \<Longrightarrow> v = JNull"
proof (induction h)
  case Nil
  then show ?case by simp
next
  case (Cons b h)
  from Cons.prems(1) have nb: "\<not> is_quiz_record py b" and nh: "\<forall>b\<in>set h. \<not> is_quiz_record py b"
    by simp_all
  from Cons.prems(2) obtain meta where em: "extract_metadata py b = Inr meta"
    by (auto split: sum.splits)
  show ?case
  proof (cases "truthy meta")
    case False
    with Cons.prems(2) em have "find_quiz py h = Inr v" by simp
    with Cons.IH nh show ?thesis by blast
  next
    case True
    with Cons.prems(2) em obtain mode where g: "get meta (str ''mode'') = Inr mode"
      by (auto split: sum.splits)
    with nb em True have "mode \<noteq> JStr (str ''quiz'')"
      using find_quiz_step_quiz by blast
    with Cons.prems(2) em True g have "find_quiz py h = Inr v" by simp
    with Cons.IH nh show ?thesis by blast
  qed
qed

lemma truthy_JNull [simp]: "\<not> truthy JNull"
  by (simp add: truthy_def)

lemma find_quiz_skip:
  "\<forall>c\<in>set xs. search_meta c = None \<Longrightarrow> find_quiz py (xs @ ys) = find_quiz py ys"
  by (induction xs) (simp_all add: extract_metadata_def)

lemma search_meta_incorrect_comment: "search_meta incorrect_comment = None"
  by (simp add: incorrect_comment_def str_def match_meta_def)

text \<open>
  C7. A reply that matches the answer pattern, with no quiz-tagged record anywhere in
  the comment history: the run makes no call at all (no comment, no check run) and ends
  as an error, \<open>sys.exit(1)\<close> after the logged error when the scan of the history comes
  to its end, the exception of the scan otherwise.
\<close>

theorem no_challenge_is_an_error:
  assumes "user_answer body = Some answer"
    and "\<forall>c\<in>set (issue_comments pr). \<not> is_quiz_record py c"
  shows "run_verify_mode py (Some pr) body =
           ([], case find_quiz py (rev (issue_comments pr)) of Inl e \<Rightarrow> Raised e | Inr v \<Rightarrow> Exit 1)"
proof (cases "find_quiz py (rev (issue_comments pr))")
  case (Inl e)
  with assms(1) show ?thesis by (simp add: run_verify_mode_def)
next
  case (Inr v)
  from assms(2) have "\<forall>c\<in>set (rev (issue_comments pr)). \<not> is_quiz_record py c" by simp
  from find_quiz_no_record [OF this Inr] have "v = JNull" .
  with Inr assms(1) show ?thesis by (simp add: run_verify_mode_def)
qed

theorem no_challenge_is_an_error_witness:
  "\<forall>py. run_verify_mode py (Some \<lparr>head_sha = str ''c0ffee'', issue_comments = [str ''looks good''], files = []\<rparr>)
       (str ''/answer B'') = ([], Exit 1)"
proof
  fix py
  have ua: "user_answer (str ''/answer B'') = Some (str ''B'')"
    by (simp add: user_answer_def match_answer_def strip_def str_def isspace_def
        answer_letter_def upper_def upper_char_def)
  have sm: "search_meta (str ''looks good'') = None"
    by (simp add: str_def match_meta_def)
  have nq: "\<not> is_quiz_record py (str ''looks good'')"
    by (simp add: is_quiz_record_def extract_metadata_def sm)
  have fq: "find_quiz py [str ''looks good''] = Inr JNull"
    by (simp add: extract_metadata_def sm)
  show "run_verify_mode py (Some \<lparr>head_sha = str ''c0ffee'', issue_comments = [str ''looks good''], files = []\<rparr>)
       (str ''/answer B'') = ([], Exit 1)"
    using no_challenge_is_an_error [of "str ''/answer B''" "str ''B''"
        "\<lparr>head_sha = str ''c0ffee'', issue_comments = [str ''looks good''], files = []\<rparr>" py] ua nq fq
    by simp
qed

lemma user_answer_label: "user_answer body = Some L \<Longrightarrow> L = str ''A'' \<or> L = str ''B'' \<or> L = str ''C''"
proof -
  assume "user_answer body = Some L"
  then obtain c where "answer_letter c" "L = [upper_char c]"
    by (auto simp: user_answer_def upper_def dest: match_answer_elim)
  moreover from this(1) have "c = 97 \<or> c = 98 \<or> c = 99 \<or> c = 65 \<or> c = 66 \<or> c = 67"
    unfolding answer_letter_def by arith
  ultimately show ?thesis
    by (auto simp: upper_char_def str_def)
qed

lemma user_answer_iff:
  "user_answer body = Some L \<longleftrightarrow>
     (\<exists>ws c rest. strip body = str ''/answer'' @ ws @ c # rest \<and> ws \<noteq> [] \<and>
        (\<forall>w\<in>set ws. isspace w) \<and> answer_letter c \<and> L = [upper_char c])"
proof
  assume "user_answer body = Some L"
  then obtain c where m: "match_answer (strip body) = Some c" and L: "L = [upper_char c]"
    by (auto simp: user_answer_def upper_def)
  from match_answer_elim [OF m] L
  show "\<exists>ws c rest. strip body = str ''/answer'' @ ws @ c # rest \<and> ws \<noteq> [] \<and>
         (\<forall>w\<in>set ws. isspace w) \<and> answer_letter c \<and> L = [upper_char c]"
    by blast
next
  assume "\<exists>ws c rest. strip body = str ''/answer'' @ ws @ c # rest \<and> ws \<noteq> [] \<and>
         (\<forall>w\<in>set ws. isspace w) \<and> answer_letter c \<and> L = [upper_char c]"
  then obtain ws c rest where s: "strip body = str ''/answer'' @ ws @ c # rest"
    and h: "ws \<noteq> []" "\<forall>w\<in>set ws. isspace w" "answer_letter c" and L: "L = [upper_char c]"
    by blast
  show "user_answer body = Some L"
    using match_answer_intro [OF h] s L by (simp add: user_answer_def upper_def)
qed

lemma answer_letter_iff: "answer_letter c \<longleftrightarrow> c \<in> set (str ''abcABC'')"
proof -
  have "answer_letter c \<longleftrightarrow> c = 97 \<or> c = 98 \<or> c = 99 \<or> c = 65 \<or> c = 66 \<or> c = 67"
    unfolding answer_letter_def by arith
  then show ?thesis
    by (auto simp: str_def)
qed

text \<open>
  C6. \<open>/answer b\<close>, \<open>/answer B\<close> and \<open>  /answer B  \<close> all give the label \<open>B\<close>; a
  body that does not match the pattern makes the run end with status 0 and no call (no
  comment, no check run); and a label that is accepted is \<open>A\<close>, \<open>B\<close> or \<open>C\<close>.
  The pattern is fixed: a body gives the label \<open>L\<close> exactly when its stripped text is
  \<open>/answer\<close>, one white-space character or more, and then one of the six letters
  \<open>abcABC\<close>, of which \<open>L\<close> is the upper case; so each of the six letters is
  accepted, and \<open>/answer D\<close>, \<open>/answer d\<close>, \<open>/answerfoo\<close>, \<open>/answerB\<close>,
  \<open>/answer\<close> and \<open>answer B\<close> are not.
\<close>

theorem reply_recognition:
  "user_answer (str ''/answer b'') = Some (str ''B'')
   \<and> user_answer (str ''/answer B'') = Some (str ''B'')
   \<and> user_answer (str ''  /answer B  '') = Some (str ''B'')
   \<and> (user_answer body = None \<longrightarrow> run_verify_mode py gh body = ([], Exit 0))
   \<and> (user_answer body = Some L \<longrightarrow> L = str ''A'' \<or> L = str ''B'' \<or> L = str ''C'')
   \<and> (user_answer body = Some L \<longleftrightarrow>
        (\<exists>ws c rest. strip body = str ''/answer'' @ ws @ c # rest \<and> ws \<noteq> [] \<and>
           (\<forall>w\<in>set ws. isspace w) \<and> c \<in> set (str ''abcABC'') \<and> L = [upper_char c]))
   \<and> map upper_char (str ''abcABC'') = str ''ABCABC''
   \<and> map (\<lambda>c. user_answer (str ''/answer '' @ [c])) (str ''abcABC'')
        = map Some [str ''A'', str ''B'', str ''C'', str ''A'', str ''B'', str ''C'']
   \<and> user_answer (str ''/answer D'') = None
   \<and> user_answer (str ''/answer d'') = None
   \<and> user_answer (str ''/answerfoo'') = None
   \<and> user_answer (str ''/answerB'') = None
   \<and> user_answer (str ''/answer'') = None
   \<and> user_answer (str ''answer B'') = None"
proof (intro conjI impI)
  show "user_answer (str ''/answer b'') = Some (str ''B'')"
    by (simp add: user_answer_def match_answer_def strip_def str_def isspace_def
        answer_letter_def upper_def upper_char_def)
  show "user_answer (str ''/answer B'') = Some (str ''B'')"
    by (simp add: user_answer_def match_answer_def strip_def str_def isspace_def
        answer_letter_def upper_def upper_char_def)
  show "user_answer (str ''  /answer B  '') = Some (str ''B'')"
    by (simp add: user_answer_def match_answer_def strip_def str_def isspace_def
        answer_letter_def upper_def upper_char_def)
  show "run_verify_mode py gh body = ([], Exit 0)" if "user_answer body = None"
    using that by (simp add: run_verify_mode_def)
  show "L = str ''A'' \<or> L = str ''B'' \<or> L = str ''C''" if "user_answer body = Some L"
    using that by (rule user_answer_label)
  show "user_answer body = Some L \<longleftrightarrow>
        (\<exists>ws c rest. strip body = str ''/answer'' @ ws @ c # rest \<and> ws \<noteq> [] \<and>
           (\<forall>w\<in>set ws. isspace w) \<and> c \<in> set (str ''abcABC'') \<and> L = [upper_char c])"
    unfolding user_answer_iff answer_letter_iff ..
  show "map upper_char (str ''abcABC'') = str ''ABCABC''"
    by (simp add: upper_char_def str_def)
  show "map (\<lambda>c. user_answer (str ''/answer '' @ [c])) (str ''abcABC'')
        = map Some [str ''A'', str ''B'', str ''C'', str ''A'', str ''B'', str ''C'']"
    by (simp add: user_answer_def match_answer_def strip_def str_def isspace_def
        answer_letter_def upper_def upper_char_def)
  show "user_answer (str ''/answer D'') = None"
    by (simp add: user_answer_def match_answer_def strip_def str_def isspace_def answer_letter_def)
  show "user_answer (str ''/answer d'') = None"
    by (simp add: user_answer_def match_answer_def strip_def str_def isspace_def answer_letter_def)
  show "user_answer (str ''/answerfoo'') = None"
    by (simp add: user_answer_def match_answer_def strip_def str_def isspace_def answer_letter_def)
  show "user_answer (str ''/answerB'') = None"
    by (simp add: user_answer_def match_answer_def strip_def str_def isspace_def answer_letter_def)
  show "user_answer (str ''/answer'') = None"
    by (simp add: user_answer_def match_answer_def strip_def str_def isspace_def answer_letter_def)
  show "user_answer (str ''answer B'') = None"
    by (simp add: user_answer_def match_answer_def strip_def str_def isspace_def answer_letter_def)
qed

theorem reply_recognition_witness:
  "(\<forall>py gh. run_verify_mode py gh (str ''looks good, thanks'') = ([], Exit 0))
   \<and> user_answer (str ''/answer'' @ 9 # str '' cde'') = Some (str ''C'')
   \<and> user_answer (str ''/answer e'') \<noteq> Some (str ''E'')"
proof (intro conjI allI)
  fix py gh
  have "user_answer (str ''looks good, thanks'') = None"
    by (simp add: user_answer_def match_answer_def strip_def str_def isspace_def)
  then show "run_verify_mode py gh (str ''looks good, thanks'') = ([], Exit 0)"
    using reply_recognition [of "str ''looks good, thanks''" py gh] by blast
next
  have s: "strip (str ''/answer'' @ 9 # str '' cde'') = str ''/answer'' @ [9, 32] @ 99 # str ''de''"
    by (simp add: strip_def str_def isspace_def)
  have "\<exists>ws c rest. strip (str ''/answer'' @ 9 # str '' cde'') = str ''/answer'' @ ws @ c # rest
          \<and> ws \<noteq> [] \<and> (\<forall>w\<in>set ws. isspace w) \<and> c \<in> set (str ''abcABC'') \<and> str ''C'' = [upper_char c]"
    apply (rule exI [of _ "[9, 32]"])
    apply (rule exI [of _ 99])
    apply (rule exI [of _ "str ''de''"])
    apply (simp add: s isspace_def upper_char_def)
    apply (simp add: str_def)
    done
  then show "user_answer (str ''/answer'' @ 9 # str '' cde'') = Some (str ''C'')"
    using reply_recognition [of "str ''/answer'' @ 9 # str '' cde''" _ _ "str ''C''"] by blast
next
  have "str ''E'' \<noteq> str ''A''" "str ''E'' \<noteq> str ''B''" "str ''E'' \<noteq> str ''C''"
    by (simp_all add: str_def)
  then show "user_answer (str ''/answer e'') \<noteq> Some (str ''E'')"
    using reply_recognition [of "str ''/answer e''" _ _ "str ''E''"] by blast
qed

section \<open>Generate mode\<close>

lemma diff_text_no_patch:
  "\<forall>f\<in>set fs. patch f = None \<or> patch f = Some [] \<Longrightarrow> diff_text fs = []"
  by (induction fs) auto

text \<open>
  C10. A change set in which no file has a patch (or with no file at all): generate
  mode returns normally and has made no call, neither of the question generator nor
  to post a comment or create a check run.
\<close>

theorem no_patch_no_effect:
  assumes "\<forall>f\<in>set (files pr). patch f = None \<or> patch f = Some []"
  shows "run_generate_mode py (Some pr) p inp reply salt = ([], Returned)"
  using diff_text_no_patch [OF assms] by (simp add: run_generate_mode_def)

theorem no_patch_no_effect_witness:
  "\<forall>py p inp reply salt.
     run_generate_mode py
       (Some \<lparr>head_sha = str ''c0ffee'', issue_comments = [],
              files = [\<lparr>filename = str ''logo.png'', patch = None\<rparr>]\<rparr>) p inp reply salt
     = ([], Returned)"
  using no_patch_no_effect
    [of "\<lparr>head_sha = str ''c0ffee'', issue_comments = [],
              files = [\<lparr>filename = str ''logo.png'', patch = None\<rparr>]\<rparr>"]
  by simp

lemma post_quiz_effects:
  "post_quiz py pr salt q = (acts, out) \<Longrightarrow> out \<noteq> Returned \<Longrightarrow> acts = []"
  by (auto simp: post_quiz_def split: sum.splits)

text \<open>
  C8. The question generator returns \<open>None\<close> when the call of the API fails or its
  text does not parse. With no usable answer (a value that is not true) generate mode
  exits with status 1 after the logged error, and the only call it has made is the one
  of the question generator; and however generate mode fails, it has posted no comment
  and created no check run.
\<close>

theorem no_question_no_side_effect:
  "generate_question py p ApiFailure = JNull
   \<and> (json_loads py c = Inl e \<longrightarrow> generate_question py p (Content c) = JNull)
   \<and> (diff_text (files pr) \<noteq> [] \<and> \<not> truthy (generate_question py p reply) \<longrightarrow>
        run_generate_mode py (Some pr) p inp reply salt =
          ([QueryLLM (take 10000 (diff_text (files pr)))
              (case difficulty inp of None \<Rightarrow> str ''medium'' | Some x \<Rightarrow> x)
              (system_prompt inp) (custom_instructions inp)], Exit 1))
   \<and> (snd (run_generate_mode py gh p inp reply salt) \<noteq> Returned \<longrightarrow>
        (\<forall>a\<in>set (fst (run_generate_mode py gh p inp reply salt)). \<exists>d x y z. a = QueryLLM d x y z))"
proof (intro conjI impI)
  show "generate_question py p ApiFailure = JNull"
    by (cases p) (simp_all add: generate_question_def generate_openai_def generate_gemini_def)
  show "generate_question py p (Content c) = JNull" if "json_loads py c = Inl e"
    using that
    by (cases p) (simp_all add: generate_question_def generate_openai_def generate_gemini_def)
  show "run_generate_mode py (Some pr) p inp reply salt =
          ([QueryLLM (take 10000 (diff_text (files pr)))
              (case difficulty inp of None \<Rightarrow> str ''medium'' | Some x \<Rightarrow> x)
              (system_prompt inp) (custom_instructions inp)], Exit 1)"
    if "diff_text (files pr) \<noteq> [] \<and> \<not> truthy (generate_question py p reply)"
    using that by (simp add: run_generate_mode_def Let_def)
  show "\<forall>a\<in>set (fst (run_generate_mode py gh p inp reply salt)). \<exists>d x y z. a = QueryLLM d x y z"
    if "snd (run_generate_mode py gh p inp reply salt) \<noteq> Returned"
  proof (cases gh)
    case None
    then show ?thesis by (simp add: run_generate_mode_def)
  next
    case (Some pr')
    obtain acts out where pq: "post_quiz py pr' salt (generate_question py p reply) = (acts, out)"
      by (cases "post_quiz py pr' salt (generate_question py p reply)")
    from post_quiz_effects [OF pq] that Some pq show ?thesis
      by (auto simp: run_generate_mode_def Let_def split: if_splits)
  qed
qed

theorem no_question_no_side_effect_witness:
  "\<forall>py p salt.
     run_generate_mode py
       (Some \<lparr>head_sha = str ''c0ffee'', issue_comments = [],
              files = [\<lparr>filename = str ''a.py'', patch = Some (str ''+x = 1'')\<rparr>]\<rparr>) p
       \<lparr>difficulty = Some (str ''medium''), system_prompt = None, custom_instructions = None\<rparr>
       ApiFailure salt
     = ([QueryLLM (str ''File: a.py'' @ [10] @ str ''+x = 1'' @ [10, 10]) (str ''medium'') None None],
        Exit 1)"
proof (intro allI)
  fix py :: python and p and salt :: pystr
  let ?pr = "\<lparr>head_sha = str ''c0ffee'', issue_comments = [],
              files = [\<lparr>filename = str ''a.py'', patch = Some (str ''+x = 1'')\<rparr>]\<rparr>"
  let ?inp = "\<lparr>difficulty = Some (str ''medium''), system_prompt = None, custom_instructions = None\<rparr>"
  have d: "diff_text (files ?pr) = str ''File: a.py'' @ [10] @ str ''+x = 1'' @ [10, 10]"
    by (simp add: str_def)
  have ne: "diff_text (files ?pr) \<noteq> []"
    by (simp add: str_def)
  have t: "take 10000 (diff_text (files ?pr)) = diff_text (files ?pr)"
    by (simp add: str_def)
  have "\<not> truthy (generate_question py p ApiFailure)"
    using no_question_no_side_effect [of py p] by (simp add: truthy_def)
  with ne have "run_generate_mode py (Some ?pr) p ?inp ApiFailure salt =
          ([QueryLLM (take 10000 (diff_text (files ?pr)))
              (case difficulty ?inp of None \<Rightarrow> str ''medium'' | Some x \<Rightarrow> x)
              (system_prompt ?inp) (custom_instructions ?inp)], Exit 1)"
    using no_question_no_side_effect [of py p _ _ ?pr ApiFailure ?inp salt] by blast
  then have "run_generate_mode py (Some ?pr) p ?inp ApiFailure salt =
          ([QueryLLM (diff_text (files ?pr)) (str ''medium'') None None], Exit 1)"
    by (simp only: t) simp
  then show "run_generate_mode py (Some ?pr) p ?inp ApiFailure salt =
     ([QueryLLM (str ''File: a.py'' @ [10] @ str ''+x = 1'' @ [10, 10]) (str ''medium'') None None], Exit 1)"
    by (simp only: d)
qed

section \<open>Finding and decoding the metadata\<close>

lemma close_no_overlap:
  assumes "s \<noteq> []" and "after_prefix (str '' -->'') s = None"
  shows "after_prefix (str '' -->'') (s @ str '' -->'' @ rest) = None"
proof -
  consider a where "s = [a]" | a b where "s = [a, b]" | a b c where "s = [a, b, c]"
    | a b c d t where "s = a # b # c # d # t"
    using assms(1) by (metis list.exhaust)
  then show ?thesis
    using assms(2) by cases (auto simp: str_def split: if_splits)
qed

lemma lazy_group_found:
  "\<not> contains g (str '' -->'') \<Longrightarrow> 10 \<notin> set g \<Longrightarrow> lazy_group (g @ str '' -->'' @ rest) = Some g"
proof (induction g)
  case Nil
  then show ?case by (simp add: str_def)
next
  case (Cons c cs)
  then have "after_prefix (str '' -->'') (c # cs) = None" by simp
  then have "after_prefix (str '' -->'') ((c # cs) @ str '' -->'' @ rest) = None"
    by (intro close_no_overlap) simp_all
  with Cons show ?case by simp
qed

lemma search_meta_here: "match_meta s = Some g \<Longrightarrow> search_meta s = Some g"
  by (cases s) (simp_all add: match_meta_def str_def)

lemma search_meta_marker:
  assumes "\<not> contains g (str '' -->'')" and "10 \<notin> set g"
  shows "search_meta (str ''<!-- readguard_meta: '' @ g @ str '' -->'' @ rest) = Some g"
  using lazy_group_found [OF assms] by (intro search_meta_here) (simp add: match_meta_def)

lemma contains_brackets: "\<not> contains (replicate n 91) (str '' -->'')"
  by (induction n) (simp_all add: str_def)

lemma scan_once_array:
  "scan_once py d (91 # cs) =
     (if d = 0 then Inl RecursionError
      else (case skip_ws cs of
              [] \<Rightarrow> Inl JSONDecodeError
            | n # r \<Rightarrow> if n = 93 then Inr (JArr [], r)
                       else array_loop py (d - 1) [] (n # r)))"
  by simp

lemma skip_ws_bracket: "skip_ws (91 # cs) = 91 # cs"
  by (simp add: skip_ws_def json_ws_def)

lemma too_deep: "scan_once py d (replicate (Suc d) 91 @ rest) = Inl RecursionError"
proof (induction d)
  case 0
  show ?case by (simp add: scan_once_array del: scan_once.simps)
next
  case (Suc d)
  have "array_loop py d [] (91 # replicate d 91 @ rest) = Inl RecursionError"
    using Suc by (subst array_loop.simps) simp
  then show ?case
    by (simp add: scan_once_array skip_ws_bracket del: scan_once.simps)
qed

lemma extract_metadata_absent: "search_meta text = None \<Longrightarrow> extract_metadata py text = Inr JNull"
  by (simp add: extract_metadata_def)

lemma extract_metadata_malformed:
  "search_meta text = Some g \<Longrightarrow> json_loads py g = Inl JSONDecodeError \<Longrightarrow>
   extract_metadata py text = Inr JNull"
  by (simp add: extract_metadata_def)

text \<open>
  C4, the code at a failing input. \<open>extract_metadata\<close> raises on some texts: for a
  marker that holds one more opening bracket than the decoder may nest,
  \<open>json.loads\<close> raises \<open>RecursionError\<close>, which is no \<open>JSONDecodeError\<close> and leaves
  \<open>extract_metadata\<close> as it is. (With no marker, and with a marker whose content
  makes \<open>json.loads\<close> raise \<open>JSONDecodeError\<close>, it returns \<open>None\<close>: the two lemmas
  above.)
\<close>

theorem deep_nesting_raises:
  "extract_metadata py
     (str ''<!-- readguard_meta: '' @ replicate (Suc (max_nesting py)) 91 @ str '' -->'')
   = Inl RecursionError"
proof -
  let ?g = "replicate (Suc (max_nesting py)) 91"
  have "search_meta (str ''<!-- readguard_meta: '' @ ?g @ str '' -->'' @ []) = Some ?g"
    by (rule search_meta_marker) (simp_all add: contains_brackets del: replicate.simps)
  moreover have "json_loads py ?g = Inl RecursionError"
    using too_deep [of py "max_nesting py" "[]"]
    by (simp add: json_loads_def skip_ws_bracket del: scan_once.simps)
  ultimately show ?thesis
    by (simp add: extract_metadata_def del: replicate.simps)
qed

text \<open>
  The other exception the \<open>except\<close> clause lets through: an integer with more digits
  than \<open>int\<close> accepts raises \<open>ValueError\<close>.
\<close>

lemma contains_ones: "\<not> contains (replicate n 49) (str '' -->'')"
  by (induction n) (simp_all add: str_def)

lemma match_number_ones:
  assumes "0 < int_max_str_digits py"
  shows "match_number py (49 # replicate (int_max_str_digits py) 49) = Some (Inl ValueError)"
proof -
  let ?n = "int_max_str_digits py"
  have dg: "isdigit 49"
    by (simp add: isdigit_def)
  have i: "match_integer (49 # replicate ?n 49) = Some (49 # replicate ?n 49, [])"
    by (simp add: match_integer_def dg)
  show ?thesis
    using assms
    by (simp add: match_number_def match_sign_def i match_frac_def match_exp_def
        del: replicate.simps)
qed

lemma long_integer_raises:
  assumes "0 < int_max_str_digits py"
  shows "extract_metadata py
           (str ''<!-- readguard_meta: '' @ replicate (Suc (int_max_str_digits py)) 49 @ str '' -->'')
         = Inl ValueError"
proof -
  let ?g = "replicate (Suc (int_max_str_digits py)) 49"
  have "search_meta (str ''<!-- readguard_meta: '' @ ?g @ str '' -->'' @ []) = Some ?g"
    by (rule search_meta_marker) (simp_all add: contains_ones del: replicate.simps)
  moreover have "scan_once py d (49 # replicate (int_max_str_digits py) 49) = Inl ValueError" for d
    using match_number_ones [OF assms] by (simp add: str_def del: replicate.simps)
  then have "json_loads py ?g = Inl ValueError"
    by (simp add: json_loads_def skip_ws_def json_ws_def del: scan_once.simps)
  ultimately show ?thesis
    by (simp add: extract_metadata_def del: replicate.simps)
qed

section \<open>The round trip of the metadata\<close>

lemma hex_value_hexdigit: "d < 16 \<Longrightarrow> hex_value (hexdigit d) = Some d"
  by (auto simp: hex_value_def hexdigit_def)

lemma hex4: "((n div 4096 * 16 + n div 256 mod 16) * 16 + n div 16 mod 16) * 16 + n mod 16 = (n::nat)"
proof -
  define a where "a = n div 16"
  define b where "b = a div 16"
  have 1: "n div 256 = b" by (simp add: a_def b_def div_mult2_eq)
  have 2: "n div 4096 = b div 16" by (simp add: a_def b_def div_mult2_eq)
  have "b div 16 * 16 + b mod 16 = b" by (rule div_mult_mod_eq)
  moreover have "b * 16 + a mod 16 = a" unfolding b_def by (rule div_mult_mod_eq)
  moreover have "a * 16 + n mod 16 = n" unfolding a_def by (rule div_mult_mod_eq)
  ultimately show ?thesis unfolding 1 2 a_def [symmetric] by simp
qed

lemma decode_u_escape:
  assumes "n < 65536"
  shows "decode_uXXXX (hexdigit (n div 4096) # hexdigit (n div 256 mod 16) # hexdigit (n div 16 mod 16) # hexdigit (n mod 16) # t) = Some n"
proof -
  have "n div 4096 < 16" using assms by simp
  then show ?thesis
    using hex4 [of n] by (simp add: hex_value_hexdigit)
qed

lemma scanstring_u:
  "decode_uXXXX es = Some uni \<Longrightarrow> \<not> (55296 \<le> uni \<and> uni \<le> 56319) \<Longrightarrow>
   scanstring (92 # 117 # es) = prepend uni (scanstring (drop 4 es))"
  apply simp
  apply blast
  done

lemma scanstring_pair:
  "decode_uXXXX es = Some hi \<Longrightarrow> 55296 \<le> hi \<Longrightarrow> hi \<le> 56319 \<Longrightarrow>
   after_prefix [92, 117] (drop 4 es) \<noteq> None \<Longrightarrow> decode_uXXXX (drop 6 es) = Some lo \<Longrightarrow>
   56320 \<le> lo \<Longrightarrow> lo \<le> 57343 \<Longrightarrow>
   scanstring (92 # 117 # es) = prepend (65536 + ((hi - 55296) * 1024 + (lo - 56320))) (scanstring (drop 10 es))"
  by simp

lemma scanstring_plain:
  "c \<noteq> 34 \<Longrightarrow> c \<noteq> 92 \<Longrightarrow> 32 \<le> c \<Longrightarrow> scanstring (c # cs) = prepend c (scanstring cs)"
  by simp

lemma scanstring_backslash:
  "backslash e = Some ch \<Longrightarrow> e \<noteq> 117 \<Longrightarrow> scanstring (92 # e # es) = prepend ch (scanstring es)"
  by simp

lemma scanstring_escape_char:
  assumes "scalar c"
  shows "scanstring (escape_char c @ t) = prepend c (scanstring t)"
proof -
  consider (short) "c = 34 \<or> c = 92 \<or> c = 10 \<or> c = 13 \<or> c = 9 \<or> c = 8 \<or> c = 12"
    | (plain) "c \<noteq> 34" "c \<noteq> 92" "32 \<le> c" "c \<le> 126"
    | (bmp) "c \<notin> {34, 92, 10, 13, 9, 8, 12}" "\<not> (32 \<le> c \<and> c \<le> 126)" "c < 65536"
    | (astral) "65536 \<le> c"
    by fastforce
  then show ?thesis
  proof cases
    case short
    then show ?thesis
      by (elim disjE) (simp_all add: escape_char_def backslash_def del: scanstring.simps,
          simp_all add: scanstring_backslash backslash_def del: scanstring.simps)
  next
    case plain
    then show ?thesis
      by (simp add: escape_char_def scanstring_plain del: scanstring.simps)
  next
    case bmp
    from bmp(3) assms have ns: "\<not> (55296 \<le> c \<and> c \<le> 56319)"
      by (auto simp: scalar_def)
    have e: "escape_char c = u_escape c"
      using bmp by (auto simp: escape_char_def)
    show ?thesis
      unfolding e u_escape_def
      using scanstring_u [OF decode_u_escape [OF bmp(3)] ns, of t]
      by (simp del: scanstring.simps)
  next
    case astral
    define n where "n = c - 65536"
    have n: "n < 1048576" and c: "c = 65536 + n"
      using astral assms by (auto simp: n_def scalar_def)
    define hi where "hi = 55296 + n div 1024 mod 1024"
    define lo where "lo = 56320 + n mod 1024"
    have hi: "hi < 65536" "55296 \<le> hi" "hi \<le> 56319" and lo: "lo < 65536" "56320 \<le> lo" "lo \<le> 57343"
      by (simp_all add: hi_def lo_def) 
    have e: "escape_char c = u_escape hi @ u_escape lo"
      using astral by (simp add: escape_char_def hi_def lo_def n_def)
    have v: "65536 + ((hi - 55296) * 1024 + (lo - 56320)) = c"
      using n by (simp add: hi_def lo_def c)
    let ?es = "hexdigit (hi div 4096) # hexdigit (hi div 256 mod 16) # hexdigit (hi div 16 mod 16) # hexdigit (hi mod 16) # u_escape lo @ t"
    have d1: "decode_uXXXX ?es = Some hi"
      by (rule decode_u_escape [OF hi(1)])
    have d2: "decode_uXXXX (drop 6 ?es) = Some lo"
      using decode_u_escape [OF lo(1), of t] by (simp add: u_escape_def)
    have ap: "after_prefix [92, 117] (drop 4 ?es) \<noteq> None"
      by (simp add: u_escape_def)
    have "scanstring (92 # 117 # ?es) = prepend c (scanstring (drop 10 ?es))"
      using scanstring_pair [OF d1 hi(2,3) ap d2 lo(2,3)] v by (simp del: scanstring.simps)
    then show ?thesis
      unfolding e by (simp add: u_escape_def del: scanstring.simps)
  qed
qed

lemma scanstring_escaped:
  "valid_text s \<Longrightarrow> scanstring (concat (map escape_char s) @ 34 # rest) = Some (s, rest)"
proof (induction s)
  case Nil
  then show ?case by simp
next
  case (Cons c s)
  then have "scalar c" "valid_text s" by (simp_all add: valid_text_def)
  with Cons.IH show ?case
    by (simp add: scanstring_escape_char prepend_def del: scanstring.simps)
qed

lemma scan_once_string:
  "valid_text s \<Longrightarrow> scan_once py d (encode_basestring_ascii s @ rest) = Inr (JStr s, rest)"
  by (simp add: encode_basestring_ascii_def scanstring_escaped del: scanstring.simps)

lemma dumps_string_record:
  "json_dumps py (string_record kvs) = [123] @ join (str '', '') (map itext kvs) @ [125]"
  by (simp add: string_record_def comp_def itext_def [abs_def])

lemma object_loop_step:
  assumes "valid_text k" "valid_text v"
  shows "object_loop py d acc
           (concat (map escape_char k) @ 34 # 58 # 32 # 34 # concat (map escape_char v) @ 34 # X) =
         (case skip_ws X of
            [] \<Rightarrow> Inl JSONDecodeError
          | m # r4 \<Rightarrow>
              if m = 125 then Inr (JObj (dict_of_pairs (acc @ [(k, JStr v)])), r4)
              else if m = 44 then
                (case skip_ws r4 of
                   [] \<Rightarrow> Inl JSONDecodeError
                 | q # r5 \<Rightarrow> if q = 34 then object_loop py d (acc @ [(k, JStr v)]) r5
                             else Inl JSONDecodeError)
              else Inl JSONDecodeError)"
  by (subst object_loop.simps)
     (simp add: scanstring_escaped [OF assms(1)] scanstring_escaped [OF assms(2)]
        skip_ws_def json_ws_def del: scanstring.simps)

lemma itext_Cons:
  "itext kv = 34 # concat (map escape_char (fst kv)) @ 34 # 58 # 32 # 34 # concat (map escape_char (snd kv)) @ [34]"
  by (simp add: itext_def encode_basestring_ascii_def str_def)

lemma join_items_Cons:
  "join (str '', '') (map itext (kv # kvs)) = 34 # tl (join (str '', '') (map itext (kv # kvs)))"
  by (cases kvs) (simp_all add: itext_Cons)

lemma object_loop_items:
  assumes "\<forall>kv\<in>set (kv # kvs). valid_text (fst kv) \<and> valid_text (snd kv)"
  shows "object_loop py d acc (tl (join (str '', '') (map itext (kv # kvs))) @ 125 # rest) =
         Inr (JObj (dict_of_pairs (acc @ map (\<lambda>kv. (fst kv, JStr (snd kv))) (kv # kvs))), rest)"
  using assms
proof (induction kvs arbitrary: kv acc)
  case Nil
  then have v: "valid_text (fst kv)" "valid_text (snd kv)" by simp_all
  show ?case
    using object_loop_step [OF v, of py d acc "125 # rest"]
    by (simp add: itext_Cons skip_ws_def json_ws_def)
next
  case (Cons kv' kvs)
  then have v: "valid_text (fst kv)" "valid_text (snd kv)" by simp_all
  have ih: "object_loop py d (acc @ [(fst kv, JStr (snd kv))])
              (tl (join (str '', '') (map itext (kv' # kvs))) @ 125 # rest) =
            Inr (JObj (dict_of_pairs ((acc @ [(fst kv, JStr (snd kv))]) @
                   map (\<lambda>kv. (fst kv, JStr (snd kv))) (kv' # kvs))), rest)"
    using Cons.prems by (intro Cons.IH) simp
  have j: "tl (join (str '', '') (map itext (kv # kv' # kvs))) @ 125 # rest =
           concat (map escape_char (fst kv)) @ 34 # 58 # 32 # 34 # concat (map escape_char (snd kv)) @ 34 #
             (44 # 32 # 34 # tl (join (str '', '') (map itext (kv' # kvs))) @ 125 # rest)"
    using join_items_Cons [of kv' kvs] by (simp add: itext_Cons [of kv] str_def)
  show ?case
    unfolding j
    using object_loop_step [OF v, of py d acc] ih
    by (simp add: skip_ws_def json_ws_def)
qed

lemma dict_set_fresh: "k \<notin> fst ` set m \<Longrightarrow> dict_set k v m = m @ [(k, v)]"
  by (induction m) auto

lemma dict_of_pairs_distinct_aux:
  "distinct (map fst (m @ ps)) \<Longrightarrow> foldl (\<lambda>m (k, v). dict_set k v m) m ps = m @ ps"
proof (induction ps arbitrary: m)
  case Nil
  then show ?case by simp
next
  case (Cons p ps)
  obtain k v where p: "p = (k, v)" by (cases p)
  from Cons.prems have "k \<notin> fst ` set m" by (auto simp: p)
  then have "dict_set k v m = m @ [(k, v)]" by (rule dict_set_fresh)
  moreover from Cons.prems have "distinct (map fst ((m @ [(k, v)]) @ ps))" by (simp add: p)
  ultimately show ?case using Cons.IH [of "m @ [(k, v)]"] by (simp add: p)
qed

lemma dict_of_pairs_distinct: "distinct (map fst ps) \<Longrightarrow> dict_of_pairs ps = ps"
  using dict_of_pairs_distinct_aux [of "[]" ps] by (simp add: dict_of_pairs_def)

lemma loads_dumps_string_record:
  assumes "distinct (map fst kvs)"
    and "\<forall>kv\<in>set kvs. valid_text (fst kv) \<and> valid_text (snd kv)"
    and "0 < max_nesting py"
  shows "json_loads py (json_dumps py (string_record kvs)) = Inr (string_record kvs)"
proof (cases kvs)
  case Nil
  with assms(3) show ?thesis
    by (simp add: json_loads_def string_record_def skip_ws_def json_ws_def)
next
  case (Cons kv kvs')
  have d: "distinct (map fst (map (\<lambda>kv. (fst kv, JStr (snd kv))) kvs))"
    using assms(1) by (simp add: comp_def)
  have "object_loop py (max_nesting py - 1) [] (tl (join (str '', '') (map itext (kv # kvs'))) @ 125 # []) =
        Inr (JObj (dict_of_pairs ([] @ map (\<lambda>kv. (fst kv, JStr (snd kv))) (kv # kvs'))), [])"
    using assms(2) unfolding Cons by (rule object_loop_items)
  then have ol: "object_loop py (max_nesting py - 1) [] (tl (join (str '', '') (map itext kvs)) @ [125]) =
        Inr (string_record kvs, [])"
    using dict_of_pairs_distinct [OF d] by (simp add: Cons string_record_def)
  have j: "join (str '', '') (map itext kvs) = 34 # tl (join (str '', '') (map itext kvs))"
    unfolding Cons by (rule join_items_Cons)
  have so: "scan_once py (max_nesting py) (123 # 34 # tl (join (str '', '') (map itext kvs)) @ [125]) =
        Inr (string_record kvs, [])"
    using assms(3) ol by (simp add: skip_ws_def json_ws_def del: scanstring.simps)
  have "scan_once py (max_nesting py) (123 # join (str '', '') (map itext kvs) @ [125]) =
        Inr (string_record kvs, [])"
    by (subst j) (use so in \<open>simp del: scan_once.simps\<close>)
  then show ?thesis
    by (simp add: json_loads_def dumps_string_record skip_ws_def json_ws_def
        del: scan_once.simps)
qed

lemma hexdigit_chars: "hexdigit d \<noteq> 10 \<and> hexdigit d \<noteq> 62"
  by (simp add: hexdigit_def)

lemma u_escape_chars: "x \<in> set (u_escape n) \<Longrightarrow> x \<noteq> 10 \<and> x \<noteq> 62"
  using hexdigit_chars by (auto simp: u_escape_def)

lemma escape_char_chars: "x \<in> set (escape_char c) \<Longrightarrow> x \<noteq> 10 \<and> (x = 62 \<longrightarrow> c = 62)"
proof -
  assume x: "x \<in> set (escape_char c)"
  consider (short) "c = 34 \<or> c = 92 \<or> c = 10 \<or> c = 13 \<or> c = 9 \<or> c = 8 \<or> c = 12"
    | (plain) "c \<noteq> 34" "c \<noteq> 92" "32 \<le> c" "c \<le> 126"
    | (bmp) "c \<notin> {34, 92, 10, 13, 9, 8, 12}" "\<not> (32 \<le> c \<and> c \<le> 126)" "c < 65536"
    | (astral) "65536 \<le> c"
    by fastforce
  then show ?thesis
  proof cases
    case short
    with x show ?thesis
      by (elim disjE) (auto simp: escape_char_def)
  next
    case plain
    with x show ?thesis
      by (simp add: escape_char_def)
  next
    case bmp
    then have "escape_char c = u_escape c"
      by (auto simp: escape_char_def)
    with x u_escape_chars show ?thesis by auto
  next
    case astral
    then have "escape_char c =
        u_escape (55296 + (c - 65536) div 1024 mod 1024) @ u_escape (56320 + (c - 65536) mod 1024)"
      by (simp add: escape_char_def)
    with x u_escape_chars show ?thesis by auto
  qed
qed

lemma encode_basestring_ascii_chars:
  "x \<in> set (encode_basestring_ascii s) \<Longrightarrow> x \<noteq> 10 \<and> (x = 62 \<longrightarrow> 62 \<in> set s)"
  by (auto simp: encode_basestring_ascii_def dest: escape_char_chars)

lemma itext_chars:
  "x \<in> set (itext kv) \<Longrightarrow> x \<noteq> 10 \<and> (x = 62 \<longrightarrow> 62 \<in> set (fst kv) \<union> set (snd kv))"
  by (auto simp: itext_def str_def dest: encode_basestring_ascii_chars)

lemma set_join: "set (join sep xs) \<subseteq> set sep \<union> (\<Union>x\<in>set xs. set x)"
  by (induction sep xs rule: join.induct) auto

lemma dumps_string_record_chars:
  assumes "x \<in> set (json_dumps py (string_record kvs))"
  shows "x \<noteq> 10 \<and> (x = 62 \<longrightarrow> (\<exists>kv\<in>set kvs. 62 \<in> set (fst kv) \<union> set (snd kv)))"
proof -
  from assms have "x = 123 \<or> x = 125 \<or> x \<in> set (join (str '', '') (map itext kvs))"
    by (auto simp: dumps_string_record)
  then consider "x = 123 \<or> x = 125 \<or> x = 44 \<or> x = 32" | kv where "kv \<in> set kvs" "x \<in> set (itext kv)"
    using set_join [of "str '', ''" "map itext kvs"] by (auto simp: str_def)
  then show ?thesis
  proof cases
    case 1
    then show ?thesis by auto
  next
    case 2
    with itext_chars [OF 2(2)] show ?thesis by blast
  qed
qed

lemma contains_close_gt: "contains g (str '' -->'') \<Longrightarrow> 62 \<in> set g"
proof (induction g)
  case Nil
  then show ?case by (simp add: str_def)
next
  case (Cons c cs)
  show ?case
  proof (cases "after_prefix (str '' -->'') (c # cs)")
    case None
    with Cons show ?thesis by simp
  next
    case (Some r)
    then have "c # cs = str '' -->'' @ r" by (simp only: after_prefix_iff)
    then have "62 \<in> set (c # cs)" by (simp add: str_def)
    then show ?thesis .
  qed
qed

lemma extract_created:
  assumes "distinct (map fst kvs)"
    and "\<forall>kv\<in>set kvs. valid_text (fst kv) \<and> valid_text (snd kv)"
    and "\<not> contains (json_dumps py (string_record kvs)) (str '' -->'')"
    and "0 < max_nesting py"
  shows "extract_metadata py (create_hidden_metadata py (string_record kvs)) = Inr (string_record kvs)"
proof -
  let ?g = "json_dumps py (string_record kvs)"
  have "10 \<notin> set ?g"
    using dumps_string_record_chars by blast
  with assms(3) have "search_meta (str ''<!-- readguard_meta: '' @ ?g @ str '' -->'' @ []) = Some ?g"
    by (rule search_meta_marker)
  moreover have "json_loads py ?g = Inr (string_record kvs)"
    using assms(1,2,4) by (rule loads_dumps_string_record)
  ultimately show ?thesis
    by (simp add: extract_metadata_def create_hidden_metadata_def)
qed

lemma valid_text_ascii: "\<forall>c\<in>set s. c < 128 \<Longrightarrow> valid_text s"
  by (auto simp: valid_text_def scalar_def)

lemma quiz_metadata_record:
  "quiz_metadata salt h = string_record [(str ''salt'', salt), (str ''hash'', h), (str ''mode'', str ''quiz'')]"
  by (simp add: quiz_metadata_def string_record_def)

lemma extract_quiz:
  assumes "valid_text salt" "valid_text h" "62 \<notin> set salt" "62 \<notin> set h" "0 < max_nesting py"
  shows "extract_metadata py (create_hidden_metadata py (quiz_metadata salt h)) = Inr (quiz_metadata salt h)"
proof -
  let ?kvs = "[(str ''salt'', salt), (str ''hash'', h), (str ''mode'', str ''quiz'')]"
  have 1: "distinct (map fst ?kvs)"
    by (simp add: str_def)
  have 2: "\<forall>kv\<in>set ?kvs. valid_text (fst kv) \<and> valid_text (snd kv)"
    using assms(1,2) by (simp add: valid_text_def scalar_def str_def)
  have "\<not> (\<exists>kv\<in>set ?kvs. 62 \<in> set (fst kv) \<union> set (snd kv))"
    using assms(3,4) by (simp add: str_def)
  then have "62 \<notin> set (json_dumps py (string_record ?kvs))"
    using dumps_string_record_chars by blast
  then have 3: "\<not> contains (json_dumps py (string_record ?kvs)) (str '' -->'')"
    using contains_close_gt by blast
  show ?thesis
    unfolding quiz_metadata_record using 1 2 3 assms(5) by (rule extract_created)
qed

lemma hexadecimal_text: "hexadecimal s \<Longrightarrow> valid_text s \<and> 62 \<notin> set s"
  by (auto simp: hexadecimal_def valid_text_def scalar_def str_def)

text \<open>
  C3. For every Challenge metadata record as the program builds it (the flat record
  of the fields \<open>salt\<close>, \<open>hash\<close> and \<open>mode\<close>, where the salt and the hash are texts of
  hexadecimal digits, as \<open>secrets.token_hex\<close> and \<open>hexdigest\<close> return them, and the
  mode is \<open>quiz\<close>), decoding the text produced by encoding the record gives exactly
  the record. The interpreter is one whose JSON decoder can enter an object
  (\<open>0 < max_nesting\<close>): with no nesting left, \<open>json.loads\<close> reads no record at all.
\<close>

theorem metadata_round_trip:
  assumes "hexadecimal salt" and "hexadecimal h" and "0 < max_nesting py"
  shows "extract_metadata py (create_hidden_metadata py (quiz_metadata salt h)) = Inr (quiz_metadata salt h)"
  using assms hexadecimal_text [of salt] hexadecimal_text [of h]
  by (intro extract_quiz) simp_all

theorem metadata_round_trip_witness:
  "extract_metadata example_python
     (create_hidden_metadata example_python
        (quiz_metadata (str ''9f86d081884c7d659a2feaa0c55ad015'') (str ''a3bf4f1b2b0b822cd15d6c15b0f00a08'')))
   = Inr (quiz_metadata (str ''9f86d081884c7d659a2feaa0c55ad015'') (str ''a3bf4f1b2b0b822cd15d6c15b0f00a08''))"
proof -
  have 1: "hexadecimal (str ''9f86d081884c7d659a2feaa0c55ad015'')"
    by (simp add: hexadecimal_def str_def)
  have 2: "hexadecimal (str ''a3bf4f1b2b0b822cd15d6c15b0f00a08'')"
    by (simp add: hexadecimal_def str_def)
  have 3: "0 < max_nesting example_python"
    by (simp add: example_python_def)
  show ?thesis
    using metadata_round_trip [OF 1 2 3] .
qed

text \<open>
  The same holds of every flat record with string fields (keys that differ, texts of
  Unicode scalar values) whose JSON text does not hold the closing delimiter
  \<open>' -->'\<close>: lemma \<open>extract_created\<close>. A record whose salt holds \<open>' -->'\<close>, which no
  run of generate mode builds, is encoded to a text in which the pattern of the
  decoder ends inside the JSON, and decoding gives \<open>None\<close>.
\<close>

lemma closing_text_in_a_field:
  \<open>extract_metadata example_python
     (create_hidden_metadata example_python
        (string_record [(str ''salt'', str ''a --> b''), (str ''hash'', str ''cd34''), (str ''mode'', str ''quiz'')]))
   = Inr JNull\<close>
proof -
  have c: \<open>create_hidden_metadata example_python
        (string_record [(str ''salt'', str ''a --> b''), (str ''hash'', str ''cd34''), (str ''mode'', str ''quiz'')])
      = str ''<!-- readguard_meta: '' @ str ''{"salt": "a'' @ str '' -->'' @ str '' b", "hash": "cd34", "mode": "quiz"} -->''\<close>
    by (simp add: create_hidden_metadata_def string_record_def encode_basestring_ascii_def
        escape_char_def str_def)
  have \<open>\<not> contains (str ''{"salt": "a'') (str '' -->'')\<close>
    by (simp add: str_def)
  moreover have \<open>10 \<notin> set (str ''{"salt": "a'')\<close>
    by (simp add: str_def)
  ultimately have s: \<open>search_meta (create_hidden_metadata example_python
        (string_record [(str ''salt'', str ''a --> b''), (str ''hash'', str ''cd34''), (str ''mode'', str ''quiz'')]))
      = Some (str ''{"salt": "a'')\<close>
    unfolding c by (rule search_meta_marker)
  have l: \<open>json_loads example_python (str ''{"salt": "a'') = Inl JSONDecodeError\<close>
    by (simp add: json_loads_def example_python_def str_def skip_ws_def json_ws_def
        object_loop.simps prepend_def)
  show ?thesis
    by (simp add: extract_metadata_def s l)
qed

section \<open>Verify mode\<close>

lemma find_quiz_latest:
  "extract_metadata py body = Inr (quiz_metadata salt h) \<Longrightarrow>
   find_quiz py (body # older) = Inr (quiz_metadata salt h)"
  by (simp add: quiz_metadata_def truthy_def get_def str_def)

lemma extract_example_quiz:
  "extract_metadata example_python example_quiz = Inr (quiz_metadata (str ''ab12'') (str ''423a61623132''))"
  unfolding example_quiz_def
  by (rule extract_quiz) (simp_all add: valid_text_def scalar_def str_def example_python_def)

lemma user_answer_B: "user_answer (str ''/answer B'') = Some (str ''B'')"
  by (simp add: user_answer_def match_answer_def strip_def str_def isspace_def
      answer_letter_def upper_def upper_char_def)

lemma user_answer_A: "user_answer (str ''/answer A'') = Some (str ''A'')"
  by (simp add: user_answer_def match_answer_def strip_def str_def isspace_def
      answer_letter_def upper_def upper_char_def)

lemma extract_list: \<open>extract_metadata example_python (str ''<!-- readguard_meta: [1] -->'') = Inr (JArr [JInt 1])\<close>
proof -
  have "search_meta (str ''<!-- readguard_meta: '' @ str ''[1]'' @ str '' -->'' @ []) = Some (str ''[1]'')"
    by (rule search_meta_marker) (simp_all add: str_def)
  then have s: "search_meta (str ''<!-- readguard_meta: [1] -->'') = Some (str ''[1]'')"
    by (simp add: str_def)
  have l: "json_loads example_python (str ''[1]'') = Inr (JArr [JInt 1])"
    by (simp add: json_loads_def example_python_def str_def skip_ws_def json_ws_def
        array_loop.simps match_number_def match_sign_def match_integer_def match_frac_def
        match_exp_def isdigit_def digits_value_def)
  show ?thesis
    by (simp add: extract_metadata_def s l)
qed

text \<open>
  What the scan does when nothing raises: it passes over the newer comments and returns
  the metadata of the newest quiz-tagged record.
\<close>

lemma find_quiz_passed_over: "passed_over py body \<Longrightarrow> find_quiz py (body # older) = find_quiz py older"
  by (auto simp: passed_over_def get_def split: sum.splits json.splits option.splits)

lemma find_quiz_at_record:
  "is_quiz_record py body \<Longrightarrow> find_quiz py (body # older) = extract_metadata py body"
  by (auto simp: is_quiz_record_def get_def truthy_def split: sum.splits json.splits)

lemma find_quiz_newest:
  "\<forall>c\<in>set newer. passed_over py c \<Longrightarrow> is_quiz_record py q \<Longrightarrow>
   find_quiz py (newer @ q # older) = extract_metadata py q"
proof (induction newer)
  case Nil
  then show ?case by (simp add: find_quiz_at_record del: find_quiz.simps)
next
  case (Cons c newer)
  then show ?case by (simp add: find_quiz_passed_over del: find_quiz.simps)
qed

lemma search_meta_skip:
  "60 \<notin> set pre \<Longrightarrow> search_meta (pre @ s) = search_meta s"
  by (induction pre) (auto simp: match_meta_def str_def)

text \<open>
  C2, the code at a failing input. A history whose only comment is the quiz comment
  gives its metadata. With a newer comment whose marker holds \<open>[1]\<close>, a JSON value
  that is true and no \<open>dict\<close>, the scan raises \<open>AttributeError\<close> at \<open>meta.get\<close> and
  never comes to the quiz record; the reply \<open>/answer B\<close> then ends in that exception,
  with no call made.
\<close>

theorem scan_raises_on_metadata_that_is_no_record:
  \<open>find_quiz example_python [example_quiz] = Inr (quiz_metadata (str ''ab12'') (str ''423a61623132''))
   \<and> find_quiz example_python [str ''<!-- readguard_meta: [1] -->'', example_quiz] = Inl AttributeError
   \<and> run_verify_mode example_python
        (Some \<lparr>head_sha = str ''c0ffee'',
               issue_comments = [example_quiz, str ''<!-- readguard_meta: [1] -->''], files = []\<rparr>)
        (str ''/answer B'') = ([], Raised AttributeError)\<close>
proof (intro conjI)
  show "find_quiz example_python [example_quiz] = Inr (quiz_metadata (str ''ab12'') (str ''423a61623132''))"
    using extract_example_quiz by (rule find_quiz_latest)
  show f: \<open>find_quiz example_python [str ''<!-- readguard_meta: [1] -->'', example_quiz] = Inl AttributeError\<close>
    by (simp add: extract_list truthy_def get_def)
  show \<open>run_verify_mode example_python
        (Some \<lparr>head_sha = str ''c0ffee'',
               issue_comments = [example_quiz, str ''<!-- readguard_meta: [1] -->''], files = []\<rparr>)
        (str ''/answer B'') = ([], Raised AttributeError)\<close>
    by (simp add: run_verify_mode_def user_answer_B f del: find_quiz.simps)
qed

lemma run_verify_mode_history:
  assumes "\<forall>c\<in>set later. search_meta c = None"
  shows "run_verify_mode py (Some (pr\<lparr>issue_comments := issue_comments pr @ later\<rparr>)) body =
         run_verify_mode py (Some pr) body"
proof -
  from assms have "\<forall>c\<in>set (rev later). search_meta c = None" by simp
  then have "find_quiz py (rev later @ rev (issue_comments pr)) = find_quiz py (rev (issue_comments pr))"
    by (rule find_quiz_skip)
  then show ?thesis
    by (cases "user_answer body") (auto simp: run_verify_mode_def split: sum.splits)
qed

text \<open>
  C5. A recognised reply, with an open challenge found (a record that is true, with a
  hash and a salt) and the hash of the answer computed: when it equals the stored
  hash, the run posts the confirmation that names the label and creates a completed
  check run with conclusion \<open>success\<close>; when it does not, the run posts the rejection
  and creates a completed check run with conclusion \<open>failure\<close>. After the rejection
  (and any comments without a marker, the replies among them) a reply is evaluated as
  it was before: against the same record, as often as one likes.
\<close>

theorem reply_outcome:
  assumes "user_answer body = Some L"
    and "find_quiz py (rev (issue_comments pr)) = Inr metadata" and "truthy metadata"
    and "getitem metadata (str ''hash'') = Inr expected_hash"
    and "getitem metadata (str ''salt'') = Inr salt"
    and "verify py L salt expected_hash = Inr matched"
  shows "(matched \<longrightarrow> run_verify_mode py (Some pr) body =
            ([PostComment (correct_comment L), CreateCheckRun (verified_check (head_sha pr))], Returned))
       \<and> (\<not> matched \<longrightarrow> run_verify_mode py (Some pr) body =
            ([PostComment incorrect_comment, CreateCheckRun (failed_check (head_sha pr))], Returned))
       \<and> correct_comment L =
            [9989] @ str '' Correct! The answer was **'' @ L @ str ''**. verification successful.''
       \<and> status (verified_check sha) = str ''completed'' \<and> conclusion (verified_check sha) = str ''success''
       \<and> status (failed_check sha) = str ''completed'' \<and> conclusion (failed_check sha) = str ''failure''
       \<and> ((\<forall>c\<in>set later. search_meta c = None) \<longrightarrow>
            run_verify_mode py (Some (pr\<lparr>issue_comments := issue_comments pr @ incorrect_comment # later\<rparr>)) body' =
            run_verify_mode py (Some pr) body')"
proof (intro conjI impI)
  show "run_verify_mode py (Some pr) body =
            ([PostComment (correct_comment L), CreateCheckRun (verified_check (head_sha pr))], Returned)"
    if matched
    using that assms by (simp add: run_verify_mode_def)
  show "run_verify_mode py (Some pr) body =
            ([PostComment incorrect_comment, CreateCheckRun (failed_check (head_sha pr))], Returned)"
    if "\<not> matched"
    using that assms by (simp add: run_verify_mode_def)
  show "correct_comment L =
            [9989] @ str '' Correct! The answer was **'' @ L @ str ''**. verification successful.''"
    by (simp add: correct_comment_def)
  show "status (verified_check sha) = str ''completed''" "conclusion (verified_check sha) = str ''success''"
    by (simp_all add: verified_check_def)
  show "status (failed_check sha) = str ''completed''" "conclusion (failed_check sha) = str ''failure''"
    by (simp_all add: failed_check_def)
  show "run_verify_mode py (Some (pr\<lparr>issue_comments := issue_comments pr @ incorrect_comment # later\<rparr>)) body' =
            run_verify_mode py (Some pr) body'"
    if "\<forall>c\<in>set later. search_meta c = None"
    using that search_meta_incorrect_comment
    by (intro run_verify_mode_history) simp
qed

lemma verify_example_B:
  "verify example_python (str ''B'') (JStr (str ''ab12'')) (JStr (str ''423a61623132'')) = Inr True"
  by (simp add: verify_def compute_hash_def hashed_bytes_def format_def str_upper_def upper_char_def
      strip_def isspace_def utf8_char_def example_python_def hex_bytes_def hexdigit_def str_def)

lemma verify_example_A:
  "verify example_python (str ''A'') (JStr (str ''ab12'')) (JStr (str ''423a61623132'')) = Inr False"
  by (simp add: verify_def compute_hash_def hashed_bytes_def format_def str_upper_def upper_char_def
      strip_def isspace_def utf8_char_def example_python_def hex_bytes_def hexdigit_def str_def)

theorem reply_outcome_witness:
  "run_verify_mode example_python
     (Some \<lparr>head_sha = str ''c0ffee'', issue_comments = [example_quiz], files = []\<rparr>) (str ''/answer B'')
   = ([PostComment (correct_comment (str ''B'')), CreateCheckRun (verified_check (str ''c0ffee''))], Returned)
   \<and> run_verify_mode example_python
     (Some \<lparr>head_sha = str ''c0ffee'', issue_comments = [example_quiz], files = []\<rparr>) (str ''/answer A'')
   = ([PostComment incorrect_comment, CreateCheckRun (failed_check (str ''c0ffee''))], Returned)
   \<and> run_verify_mode example_python
     (Some \<lparr>head_sha = str ''c0ffee'',
            issue_comments = [example_quiz, str ''/answer A'', incorrect_comment, str ''/answer B''],
            files = []\<rparr>) (str ''/answer B'')
   = ([PostComment (correct_comment (str ''B'')), CreateCheckRun (verified_check (str ''c0ffee''))], Returned)"
proof -
  let ?pr = "\<lparr>head_sha = str ''c0ffee'', issue_comments = [example_quiz], files = []\<rparr>"
  let ?m = "quiz_metadata (str ''ab12'') (str ''423a61623132'')"
  have fq0: "find_quiz example_python [example_quiz] = Inr ?m"
    using extract_example_quiz by (rule find_quiz_latest)
  then have fq: "find_quiz example_python (rev (issue_comments ?pr)) = Inr ?m"
    by (simp del: find_quiz.simps)
  have t: "truthy ?m"
    by (simp add: quiz_metadata_def truthy_def)
  have h: "getitem ?m (str ''hash'') = Inr (JStr (str ''423a61623132''))"
    by (simp add: quiz_metadata_def getitem_def str_def)
  have s: "getitem ?m (str ''salt'') = Inr (JStr (str ''ab12''))"
    by (simp add: quiz_metadata_def getitem_def str_def)
  have 1: "run_verify_mode example_python (Some ?pr) (str ''/answer B'')
     = ([PostComment (correct_comment (str ''B'')), CreateCheckRun (verified_check (str ''c0ffee''))], Returned)"
    using reply_outcome [OF user_answer_B fq t h s verify_example_B] by simp
  have 2: "run_verify_mode example_python (Some ?pr) (str ''/answer A'')
     = ([PostComment incorrect_comment, CreateCheckRun (failed_check (str ''c0ffee''))], Returned)"
    using reply_outcome [OF user_answer_A fq t h s verify_example_A] by simp
  have n: "\<forall>c\<in>set [str ''/answer B'']. search_meta c = None"
    by (simp add: str_def match_meta_def)
  have n': "search_meta (str ''/answer A'') = None"
    by (simp add: str_def match_meta_def)
  have "run_verify_mode example_python
          (Some (?pr\<lparr>issue_comments := issue_comments ?pr @ [str ''/answer A'']\<rparr>)) (str ''/answer B'')
        = run_verify_mode example_python (Some ?pr) (str ''/answer B'')"
    using n' by (intro run_verify_mode_history) simp
  then have pr1: "run_verify_mode example_python
          (Some \<lparr>head_sha = str ''c0ffee'', issue_comments = [example_quiz, str ''/answer A''], files = []\<rparr>)
          (str ''/answer B'')
        = ([PostComment (correct_comment (str ''B'')), CreateCheckRun (verified_check (str ''c0ffee''))], Returned)"
    using 1 by simp
  let ?pr1 = "\<lparr>head_sha = str ''c0ffee'', issue_comments = [example_quiz, str ''/answer A''], files = []\<rparr>"
  have "find_quiz example_python ([str ''/answer A''] @ [example_quiz]) = find_quiz example_python [example_quiz]"
    using n' by (intro find_quiz_skip) simp
  then have fq1: "find_quiz example_python (rev (issue_comments ?pr1)) = Inr ?m"
    using fq0 by (simp del: find_quiz.simps)
  have "run_verify_mode example_python
          (Some (?pr1\<lparr>issue_comments := issue_comments ?pr1 @ incorrect_comment # [str ''/answer B'']\<rparr>))
          (str ''/answer B'')
        = run_verify_mode example_python (Some ?pr1) (str ''/answer B'')"
    using reply_outcome [OF user_answer_A fq1 t h s verify_example_A] n by blast
  then have 3: "run_verify_mode example_python
     (Some \<lparr>head_sha = str ''c0ffee'',
            issue_comments = [example_quiz, str ''/answer A'', incorrect_comment, str ''/answer B''],
            files = []\<rparr>) (str ''/answer B'')
   = ([PostComment (correct_comment (str ''B'')), CreateCheckRun (verified_check (str ''c0ffee''))], Returned)"
    using pr1 by simp
  from 1 2 3 show ?thesis by blast
qed

section \<open>The commitment\<close>

lemma encode_append:
  "encode (xs @ ys) =
     (case encode xs of
        Inl e \<Rightarrow> Inl e
      | Inr a \<Rightarrow> (case encode ys of Inl e \<Rightarrow> Inl e | Inr b \<Rightarrow> Inr (a @ b)))"
  by (induction xs) (auto split: option.splits sum.splits)

lemma label_cases: "L \<in> set labels \<Longrightarrow> L = [65] \<or> L = [66] \<or> L = [67]"
  by (auto simp: labels_def str_def)

text \<open>On a text of ASCII characters \<open>str.upper\<close> is \<open>upper\<close>, whatever the interpreter.\<close>

lemma str_upper_ascii: "\<forall>c\<in>set s. c < 128 \<Longrightarrow> str_upper py s = upper s"
  by (induction s) (simp_all add: str_upper_def upper_def)

lemma label_normal: "L \<in> set labels \<Longrightarrow> str_upper py (strip L) = L \<and> encode L = Inr L"
  by (auto dest!: label_cases simp: str_upper_def upper_char_def strip_def isspace_def utf8_char_def)

lemma hashed_bytes_label:
  assumes "L \<in> set labels"
  shows "hashed_bytes py L (JStr S) =
           (case encode S of Inl e \<Rightarrow> Inl e | Inr bs \<Rightarrow> Inr (L @ 58 # bs))"
proof -
  have "encode ([58] @ S) = (case encode S of Inl e \<Rightarrow> Inl e | Inr bs \<Rightarrow> Inr (58 # bs))"
    by (simp add: utf8_char_def split: sum.splits)
  then show ?thesis
    using label_normal [OF assms]
    by (simp add: hashed_bytes_def format_def encode_append [of L] split: sum.splits)
qed

text \<open>
  C1. For labels \<open>L\<close>, \<open>L'\<close> among \<open>A\<close>, \<open>B\<close>, \<open>C\<close> and a salt \<open>S\<close> with the
  commitment \<open>h\<close> of \<open>(L, S)\<close>: verifying \<open>L\<close> against \<open>h\<close> succeeds; verifying a
  different \<open>L'\<close> fails, the digest not colliding on the two byte strings hashed
  (they differ); and verification succeeds exactly when the hash computed afresh from
  the claimed label and the stored salt is the stored hash.
\<close>

theorem commitment_verifies:
  assumes "L \<in> set labels" and "L' \<in> set labels"
    and "compute_hash py (JStr L) (JStr S) = Inr h"
  shows "verify py L (JStr S) (JStr h) = Inr True
       \<and> (L' \<noteq> L \<and> no_collision py L L' (JStr S) \<longrightarrow> verify py L' (JStr S) (JStr h) = Inr False)
       \<and> (verify py L' (JStr S) (JStr h) = Inr True \<longleftrightarrow> compute_hash py (JStr L') (JStr S) = Inr h)"
proof (intro conjI impI)
  show "verify py L (JStr S) (JStr h) = Inr True"
    using assms(3) by (simp add: verify_def)
  show "verify py L' (JStr S) (JStr h) = Inr True \<longleftrightarrow> compute_hash py (JStr L') (JStr S) = Inr h"
    by (auto simp: verify_def split: sum.splits)
  show "verify py L' (JStr S) (JStr h) = Inr False" if d: "L' \<noteq> L \<and> no_collision py L L' (JStr S)"
  proof -
    from assms(3) obtain b where b: "hashed_bytes py L (JStr S) = Inr b" and h: "h = sha256_hexdigest py b"
      by (auto simp: compute_hash_def split: sum.splits)
    from b obtain bs where bs: "encode S = Inr bs" and b': "b = L @ 58 # bs"
      by (auto simp: hashed_bytes_label [OF assms(1)] split: sum.splits)
    have hb': "hashed_bytes py L' (JStr S) = Inr (L' @ 58 # bs)"
      by (simp add: hashed_bytes_label [OF assms(2)] bs)
    have "L @ 58 # bs \<noteq> L' @ 58 # bs"
      using d by auto
    with d b b' hb' have "sha256_hexdigest py (L @ 58 # bs) \<noteq> sha256_hexdigest py (L' @ 58 # bs)"
      unfolding no_collision_def by blast
    then show ?thesis
      by (auto simp: verify_def compute_hash_def hb' h b')
  qed
qed

theorem commitment_verifies_witness:
  "verify example_python (str ''B'') (JStr (str ''ab12'')) (JStr (str ''423a61623132'')) = Inr True
   \<and> verify example_python (str ''A'') (JStr (str ''ab12'')) (JStr (str ''423a61623132'')) = Inr False"
proof -
  have 1: "str ''B'' \<in> set labels" and 2: "str ''A'' \<in> set labels"
    by (simp_all add: labels_def)
  have 3: "compute_hash example_python (JStr (str ''B'')) (JStr (str ''ab12'')) = Inr (str ''423a61623132'')"
    by (simp add: compute_hash_def hashed_bytes_def format_def str_upper_def upper_char_def
      strip_def isspace_def utf8_char_def example_python_def hex_bytes_def hexdigit_def str_def)
  have 4: "str ''A'' \<noteq> str ''B''"
    by (simp add: str_def)
  have 5: "no_collision example_python (str ''B'') (str ''A'') (JStr (str ''ab12''))"
    by (simp add: no_collision_def hashed_bytes_def format_def str_upper_def upper_char_def
      strip_def isspace_def utf8_char_def example_python_def hex_bytes_def hexdigit_def str_def)
  show ?thesis
    using commitment_verifies [OF 1 2 3] 4 5 by blast
qed

section \<open>Generate, then reply: an example\<close>

text \<open>
  The comment that generate mode posts decodes to the metadata put into it, when the
  texts of the question and the options hold no \<open><\<close>.
\<close>

lemma extract_quiz_comment:
  assumes "60 \<notin> set (format py question)" "60 \<notin> set (format py a)"
    "60 \<notin> set (format py b)" "60 \<notin> set (format py c)"
    and "valid_text salt" "valid_text h" "62 \<notin> set salt" "62 \<notin> set h" "0 < max_nesting py"
  shows "extract_metadata py (quiz_comment py question a b c (quiz_metadata salt h)) = Inr (quiz_metadata salt h)"
proof -
  let ?kvs = "[(str ''salt'', salt), (str ''hash'', h), (str ''mode'', str ''quiz'')]"
  let ?g = "json_dumps py (quiz_metadata salt h)"
  define pre where "pre = [10] @ str ''## '' @ [128737] @ [65039] @ str '' ReadGuard Verification'' @ [10] @ str ''    '' @ [10]
     @ str ''**Proof-of-Reading Required**'' @ [10]
     @ str ''The following question has been generated based on the changes in this PR.'' @ [10] @ [10]
     @ str ''**'' @ format py question @ str ''**'' @ [10] @ [10]
     @ str ''- **A)** '' @ format py a @ [10]
     @ str ''- **B)** '' @ format py b @ [10]
     @ str ''- **C)** '' @ format py c @ [10] @ [10]
     @ str ''Reply with '' @ [96] @ str ''/answer A'' @ [96] @ str '', '' @ [96] @ str ''/answer B'' @ [96]
     @ str '', or '' @ [96] @ str ''/answer C'' @ [96] @ str '' to unlock the merge.'' @ [10] @ [10]"
  have q: "quiz_comment py question a b c (quiz_metadata salt h) =
           pre @ (str ''<!-- readguard_meta: '' @ ?g @ str '' -->'' @ [10])"
    by (simp add: quiz_comment_def create_hidden_metadata_def pre_def)
  have p: "60 \<notin> set pre"
    using assms(1-4) by (simp add: pre_def str_def)
  have "\<not> (\<exists>kv\<in>set ?kvs. 62 \<in> set (fst kv) \<union> set (snd kv))"
    using assms(7,8) by (simp add: str_def)
  then have ng: "62 \<notin> set ?g" and nl: "10 \<notin> set ?g"
    unfolding quiz_metadata_record using dumps_string_record_chars by blast+
  from ng have "\<not> contains ?g (str '' -->'')"
    using contains_close_gt by blast
  then have "search_meta (str ''<!-- readguard_meta: '' @ ?g @ str '' -->'' @ [10]) = Some ?g"
    using nl by (rule search_meta_marker)
  then have s: "search_meta (quiz_comment py question a b c (quiz_metadata salt h)) = Some ?g"
    unfolding q using search_meta_skip [OF p] by simp
  have "json_loads py (json_dumps py (string_record ?kvs)) = Inr (string_record ?kvs)"
    using assms(5,6,9)
    by (intro loads_dumps_string_record) (simp_all add: valid_text_def scalar_def str_def)
  then have l: "json_loads py ?g = Inr (quiz_metadata salt h)"
    by (simp only: quiz_metadata_record)
  show ?thesis
    by (simp add: extract_metadata_def s l)
qed

text \<open>
  The question above with the salt \<open>ab12\<close>: generate mode posts the quiz and creates
  the check run; the reply \<open>/answer B\<close> to that comment is confirmed, and the reply
  \<open>/answer A\<close> is rejected.
\<close>

lemma generate_then_verify:
  fixes pr :: pull_request
  defines "body \<equiv> quiz_comment example_python (JStr (str ''What is the new timeout?''))
                    (JStr (str ''10 s'')) (JStr (str ''30 s'')) (JStr (str ''60 s''))
                    (quiz_metadata (str ''ab12'') (str ''423a61623132''))"
  shows "post_quiz example_python pr (str ''ab12'') example_question =
           ([PostComment body, CreateCheckRun (quiz_check (head_sha pr))], Returned)"
    and "run_verify_mode example_python (Some (pr\<lparr>issue_comments := issue_comments pr @ [body]\<rparr>))
           (str ''/answer B'') =
           ([PostComment (correct_comment (str ''B'')), CreateCheckRun (verified_check (head_sha pr))], Returned)"
    and "run_verify_mode example_python
           (Some (pr\<lparr>issue_comments := issue_comments pr @ [body, str ''/answer A'']\<rparr>))
           (str ''/answer A'') =
           ([PostComment incorrect_comment, CreateCheckRun (failed_check (head_sha pr))], Returned)"
proof -
  let ?m = "quiz_metadata (str ''ab12'') (str ''423a61623132'')"
  have ch: "compute_hash example_python (JStr (str ''B'')) (JStr (str ''ab12'')) = Inr (str ''423a61623132'')"
    by (simp add: compute_hash_def hashed_bytes_def format_def str_upper_def upper_char_def
      strip_def isspace_def utf8_char_def example_python_def hex_bytes_def hexdigit_def str_def)
  show "post_quiz example_python pr (str ''ab12'') example_question =
           ([PostComment body, CreateCheckRun (quiz_check (head_sha pr))], Returned)"
    by (simp add: post_quiz_def example_question_def getitem_def ch body_def) (simp add: str_def)
  have e: "extract_metadata example_python body = Inr ?m"
    unfolding body_def
    by (rule extract_quiz_comment)
       (simp_all add: format_def valid_text_def scalar_def str_def example_python_def)
  have t: "truthy ?m"
    by (simp add: quiz_metadata_def truthy_def)
  have h: "getitem ?m (str ''hash'') = Inr (JStr (str ''423a61623132''))"
    by (simp add: quiz_metadata_def getitem_def str_def)
  have s: "getitem ?m (str ''salt'') = Inr (JStr (str ''ab12''))"
    by (simp add: quiz_metadata_def getitem_def str_def)
  have f: "find_quiz example_python (body # older) = Inr ?m" for older
    using e by (rule find_quiz_latest)
  show "run_verify_mode example_python (Some (pr\<lparr>issue_comments := issue_comments pr @ [body]\<rparr>))
           (str ''/answer B'') =
           ([PostComment (correct_comment (str ''B'')), CreateCheckRun (verified_check (head_sha pr))], Returned)"
    by (simp add: run_verify_mode_def user_answer_B f t h s verify_example_B del: find_quiz.simps)
  have n: "search_meta (str ''/answer A'') = None"
    by (simp add: str_def match_meta_def)
  have f': "find_quiz example_python (str ''/answer A'' # body # older) = Inr ?m" for older
    using find_quiz_skip [of "[str ''/answer A'']" example_python "body # older"] n f by simp
  show "run_verify_mode example_python
           (Some (pr\<lparr>issue_comments := issue_comments pr @ [body, str ''/answer A'']\<rparr>))
           (str ''/answer A'') =
           ([PostComment incorrect_comment, CreateCheckRun (failed_check (head_sha pr))], Returned)"
    by (simp add: run_verify_mode_def user_answer_A f' t h s verify_example_A del: find_quiz.simps)
qed

end
